theory Spec2Isabelle
  imports
    Main
    "HOL-Library.Word"
    "HOL-Library.Char_ord"
    "HOL-Library.List_Lexorder"
begin

unbundle bit_operations_syntax

section \<open>filet: a terminal directory browser (src/filet.c)\<close>

text \<open>
  The development embeds the functions of \<^verbatim>\<open>filet.c\<close> one by one, under their own
  names. C strings are the lists of the bytes before the terminating NUL; the byte order
  on \<^typ>\<open>char\<close> and the lexicographic order on \<^typ>\<open>string\<close> come from the library
  (\<open>Char_ord\<close>, \<open>List_Lexorder\<close>) and are the byte-wise ones.

  Two pieces of memory are modelled as such, since the code shares them. The names of a
  listing are not copied: an element holds the pointer \<^verbatim>\<open>ent->d_name\<close> into the buffer of
  the directory stream, which later \<^verbatim>\<open>readdir\<close> calls may overwrite; the buffer is a store
  from addresses to the C strings found there. The path lives in a buffer of
  \<^verbatim>\<open>PATH_MAX\<close> bytes, and a \<^verbatim>\<open>strcpy\<close> or \<^verbatim>\<open>strcat\<close> whose result does not fit writes past
  its end.
\<close>

subsection \<open>Directory entries and their comparison\<close>

datatype etype = TYPE_DIR | TYPE_SYML | TYPE_SYML_TO_DIR | TYPE_EXEC | TYPE_NORM

type_synonym addr = nat

text \<open>The buffer of a directory stream: the C string that starts at each address.\<close>

type_synonym dirbuf = "addr \<Rightarrow> string"

record direlement =
  type :: etype
  d_name :: addr

definition NUL :: char where
  "NUL = CHR 0x00"

text \<open>
  \<^verbatim>\<open>s[i]\<close> on a C string: a byte of the string, the terminator at \<open>i = length s\<close>, and
  nothing the model can know beyond the terminator.
\<close>

definition byte_at :: "string \<Rightarrow> nat \<Rightarrow> char option" where
  "byte_at s i =
     (if i < length s then Some (s ! i)
      else if i = length s then Some NUL
      else None)"

text \<open>
  \<^verbatim>\<open>strcmp\<close> of the C library: the difference of the first pair of bytes that differ,
  read as \<^verbatim>\<open>unsigned char\<close>; the end of a string is its NUL byte, of value 0.
\<close>

fun strcmp :: "string \<Rightarrow> string \<Rightarrow> int" where
  "strcmp [] [] = 0"
| "strcmp [] (y # ys) = 0 - int (of_char y)"
| "strcmp (x # xs) [] = int (of_char x) - 0"
| "strcmp (x # xs) (y # ys) =
     (if x = y then strcmp xs ys else int (of_char x) - int (of_char y))"

text \<open>
  \<^verbatim>\<open>direlemcmp\<close> reads both names through their pointers, in the buffer \<open>mem\<close> as it is
  when \<^verbatim>\<open>qsort\<close> runs.
\<close>

definition direlemcmp :: "dirbuf \<Rightarrow> direlement \<Rightarrow> direlement \<Rightarrow> int" where
  "direlemcmp mem a b =
     (let a_is_dir = (type a = TYPE_DIR \<or> type a = TYPE_SYML_TO_DIR);
          b_is_dir = (type b = TYPE_DIR \<or> type b = TYPE_SYML_TO_DIR)
      in if a_is_dir \<noteq> b_is_dir then (if a_is_dir then - 1 else 1)
         else strcmp (mem (d_name a)) (mem (d_name b)))"

text \<open>
  \<^verbatim>\<open>qsort\<close> is the C library's, and its algorithm is not fixed by the standard: it is
  modelled by an insertion sort that consults only the comparison function, placing
  \<open>x\<close> before the first element \<open>y\<close> with \<open>compar x y \<le> 0\<close>.
\<close>

fun qsort_insert :: "('a \<Rightarrow> 'a \<Rightarrow> int) \<Rightarrow> 'a \<Rightarrow> 'a list \<Rightarrow> 'a list" where
  "qsort_insert compar x [] = [x]"
| "qsort_insert compar x (y # ys) =
     (if compar x y \<le> 0 then x # y # ys else y # qsort_insert compar x ys)"

fun qsort :: "'a list \<Rightarrow> ('a \<Rightarrow> 'a \<Rightarrow> int) \<Rightarrow> 'a list" where
  "qsort [] compar = []"
| "qsort (x # xs) compar = qsort_insert compar x (qsort xs compar)"

subsection \<open>The file system and the allocator, as \<^verbatim>\<open>read_dir\<close> sees them\<close>

type_synonym mode_t = "32 word"

definition S_IFMT :: mode_t where "S_IFMT = 0xF000"
definition S_IFDIR :: mode_t where "S_IFDIR = 0x4000"
definition S_IFLNK :: mode_t where "S_IFLNK = 0xA000"
definition S_IFREG :: mode_t where "S_IFREG = 0x8000"
definition S_IFIFO :: mode_t where "S_IFIFO = 0x1000"
definition S_IXUSR :: mode_t where "S_IXUSR = 0x40"

definition S_ISDIR :: "mode_t \<Rightarrow> bool" where
  "S_ISDIR m = (m AND S_IFMT = S_IFDIR)"

definition S_ISLNK :: "mode_t \<Rightarrow> bool" where
  "S_ISLNK m = (m AND S_IFMT = S_IFLNK)"

definition S_ISREG :: "mode_t \<Rightarrow> bool" where
  "S_ISREG m = (m AND S_IFMT = S_IFREG)"

definition AT_SYMLINK_NOFOLLOW :: int where
  "AT_SYMLINK_NOFOLLOW = 0x100"

definition ENT_ALLOC_NUM :: nat where
  "ENT_ALLOC_NUM = 64"

text \<open>
  An open directory stream: for each \<^verbatim>\<open>readdir\<close> call that returns an entry, the pointer
  \<^verbatim>\<open>ent->d_name\<close> and the buffer of the stream as it is after that call, so that the
  name returned is the string at that pointer in that buffer; and the buffer as it is
  after the last call, which returns \<^verbatim>\<open>NULL\<close>. A stream that refills its buffer hands
  out the same addresses again, with other names behind them.
\<close>

record dirstream =
  readdir :: "(addr \<times> dirbuf) list"
  at_end :: dirbuf

text \<open>
  What the system answers during one call of \<^verbatim>\<open>read_dir\<close>: \<open>opendir\<close> gives the stream,
  or \<open>None\<close> when the directory cannot be opened; \<open>fstatat\<close> gives \<^verbatim>\<open>st_mode\<close> for a name
  of that directory under the given flags, or \<open>None\<close> when the call returns a negative
  value; \<open>realloc_ok k\<close> says whether \<^verbatim>\<open>realloc\<close> to \<open>k\<close> elements succeeds.
\<close>

record env =
  opendir :: "string \<Rightarrow> dirstream option"
  fstatat :: "string \<Rightarrow> string \<Rightarrow> int \<Rightarrow> mode_t option"
  realloc_ok :: "nat \<Rightarrow> bool"

datatype error = ReallocFailed

subsection \<open>\<^verbatim>\<open>read_dir\<close>\<close>

text \<open>Lines 182-184: the names \<^verbatim>\<open>.\<close> and \<^verbatim>\<open>..\<close>.\<close>

definition is_dot_or_dotdot :: "string \<Rightarrow> bool" where
  "is_dot_or_dotdot name =
     (byte_at name 0 = Some CHR ''.'' \<and>
      (byte_at name 1 = Some NUL \<or>
       (byte_at name 1 = Some CHR ''.'' \<and> byte_at name 2 = Some NUL)))"

text \<open>
  Lines 208-223: the type of an entry whose \<^verbatim>\<open>lstat\<close> mode is \<open>sb\<close>. The second
  \<^verbatim>\<open>fstatat\<close> reads the name through the pointer just stored, in the same buffer: it is
  the same name.
\<close>

definition entry_type :: "env \<Rightarrow> string \<Rightarrow> string \<Rightarrow> mode_t \<Rightarrow> etype" where
  "entry_type e path name sb =
     (if S_ISDIR sb then TYPE_DIR
      else if S_ISLNK sb then
        (case fstatat e path name 0 of
           None \<Rightarrow> TYPE_SYML
         | Some sb' \<Rightarrow> if \<not> S_ISDIR sb' then TYPE_SYML else TYPE_SYML_TO_DIR)
      else if sb AND S_IXUSR \<noteq> 0 then TYPE_EXEC
      else TYPE_NORM)"

text \<open>
  The \<^verbatim>\<open>while ((ent = readdir(dir)))\<close> loop over the calls still to come. \<open>ents\<close> holds
  the \<open>n = length ents\<close> elements written so far, \<open>ents_size\<close> is the capacity of the
  buffer of elements. The name tested is the string at \<^verbatim>\<open>ent->d_name\<close> in the buffer of
  the stream at that moment; the element stores the pointer (line 206). A failing
  \<^verbatim>\<open>realloc\<close> ends the process (\<^verbatim>\<open>exit(EXIT_FAILURE)\<close>).
\<close>

fun read_entries ::
  "env \<Rightarrow> string \<Rightarrow> bool \<Rightarrow> (addr \<times> dirbuf) list \<Rightarrow> direlement list \<Rightarrow> nat
     \<Rightarrow> error + (direlement list \<times> nat)" where
  "read_entries e path show_hidden [] ents ents_size = Inr (ents, ents_size)"
| "read_entries e path show_hidden ((p, buf) # rest) ents ents_size =
     (let name = buf p in
      if is_dot_or_dotdot name then
        read_entries e path show_hidden rest ents ents_size
      else if \<not> show_hidden \<and> byte_at name 0 = Some CHR ''.'' then
        read_entries e path show_hidden rest ents ents_size
      else
        (case fstatat e path name AT_SYMLINK_NOFOLLOW of
           None \<Rightarrow> read_entries e path show_hidden rest ents ents_size
         | Some sb \<Rightarrow>
             if length ents = ents_size \<and> \<not> realloc_ok e (ents_size + ENT_ALLOC_NUM)
             then Inl ReallocFailed
             else
               read_entries e path show_hidden rest
                 (ents @ [\<lparr>type = entry_type e path name sb, d_name = p\<rparr>])
                 (if length ents = ents_size then ents_size + ENT_ALLOC_NUM
                  else ents_size)))"

text \<open>
  \<^verbatim>\<open>read_dir\<close> returns the listing (the first \<open>n\<close> elements of the buffer of elements,
  sorted), the new capacity, and \<^verbatim>\<open>*last_dir\<close>: the stream it has read, whose buffer the
  names of the listing point into, or \<^verbatim>\<open>NULL\<close>. \<^verbatim>\<open>qsort\<close> runs after the last \<^verbatim>\<open>readdir\<close>
  call, and compares the names that the buffer holds then. When \<^verbatim>\<open>opendir\<close> fails,
  \<open>n = 0\<close> and the capacity is unchanged.
\<close>

definition read_dir ::
  "env \<Rightarrow> string \<Rightarrow> nat \<Rightarrow> bool \<Rightarrow> error + (direlement list \<times> nat \<times> dirbuf option)" where
  "read_dir e path ents_size show_hidden =
     (case opendir e path of
        None \<Rightarrow> Inr ([], ents_size, None)
      | Some dir \<Rightarrow>
          (case read_entries e path show_hidden (readdir dir) [] ents_size of
             Inl err \<Rightarrow> Inl err
           | Inr (ents, ents_size') \<Rightarrow>
               Inr (qsort ents (direlemcmp (at_end dir)), ents_size', Some (at_end dir))))"

subsection \<open>The terminal\<close>

text \<open>
  The global variables \<^verbatim>\<open>g_old_termios\<close>, \<^verbatim>\<open>g_row\<close> and \<^verbatim>\<open>g_col\<close>, together with what the
  process has done to its terminal: the attributes it has set on the line, the bytes it
  has written to \<^verbatim>\<open>stdout\<close>, the messages it has handed to \<^verbatim>\<open>perror\<close>, and the
  disposition of \<^verbatim>\<open>SIGWINCH\<close>.
\<close>

record termios =
  c_iflag :: "32 word"
  c_oflag :: "32 word"
  c_cflag :: "32 word"
  c_lflag :: "32 word"

definition OPOST :: "32 word" where "OPOST = 0x1"
definition ICANON :: "32 word" where "ICANON = 0x2"
definition ECHO :: "32 word" where "ECHO = 0x8"

record winsize =
  ws_row :: "16 word"
  ws_col :: "16 word"

datatype sighandler = SIG_DFL | SIG_IGN | HANDLE_WINCH

record tty =
  line_termios :: termios
  g_old_termios :: termios
  g_row :: int
  g_col :: int
  stdout :: string
  stderr :: "string list"
  sigwinch :: sighandler

definition ESC :: char where
  "ESC = CHR 0x1B"

definition CRLF :: string where
  "CRLF = [CHR 0x0D, CHR 0x0A]"

definition printf :: "string \<Rightarrow> tty \<Rightarrow> tty" where
  "printf bytes t = t\<lparr>stdout := stdout t @ bytes\<rparr>"

definition perror :: "string \<Rightarrow> tty \<Rightarrow> tty" where
  "perror s t = t\<lparr>stderr := stderr t @ [s]\<rparr>"

text \<open>The conversions \<^verbatim>\<open>%lu\<close> and \<^verbatim>\<open>%d\<close> of \<^verbatim>\<open>printf\<close>.\<close>

definition digit :: "nat \<Rightarrow> char" where
  "digit d = char_of (48 + d)"

function dec :: "nat \<Rightarrow> string" where
  "dec n = (if n < 10 then [digit n] else dec (n div 10) @ [digit (n mod 10)])"
  by pat_completeness auto
termination
  by (relation "measure (\<lambda>n. n)") auto

definition dec_int :: "int \<Rightarrow> string" where
  "dec_int i = (if i < 0 then CHR ''-'' # dec (nat (- i)) else dec (nat i))"

text \<open>
  \<^verbatim>\<open>get_term_size\<close>; the argument is what \<^verbatim>\<open>ioctl(TIOCGWINSZ)\<close> answers, \<open>None\<close> when it
  returns a negative value.
\<close>

definition get_term_size :: "winsize option \<Rightarrow> tty \<Rightarrow> bool \<times> tty" where
  "get_term_size wsize t =
     (case wsize of
        None \<Rightarrow> (False, perror ''ioctl'' t)
      | Some w \<Rightarrow> (True, t\<lparr>g_row := uint (ws_row w), g_col := uint (ws_col w)\<rparr>))"

text \<open>\<^verbatim>\<open>handle_winch\<close>, the handler installed for \<^verbatim>\<open>SIGWINCH\<close>.\<close>

definition handle_winch :: "winsize option \<Rightarrow> tty \<Rightarrow> tty" where
  "handle_winch wsize t =
     (let t1 = t\<lparr>sigwinch := SIG_IGN\<rparr>;
          t2 = snd (get_term_size wsize t1)
      in t2\<lparr>sigwinch := HANDLE_WINCH\<rparr>)"

text \<open>\<^verbatim>\<open>restore_terminal\<close>; the flag says whether \<^verbatim>\<open>tcsetattr\<close> succeeds.\<close>

definition restore_terminal :: "bool \<Rightarrow> tty \<Rightarrow> tty" where
  "restore_terminal tcsetattr_ok t =
     (let t1 = (if tcsetattr_ok then t\<lparr>line_termios := g_old_termios t\<rparr>
                else perror ''tcsetattr'' t)
      in printf (ESC # ''[?7h'' @ ESC # ''[?25h'' @ ESC # ''[;r'' @ ESC # ''[?1049l'') t1)"

text \<open>
  \<^verbatim>\<open>setup_terminal\<close>; the flags say whether \<^verbatim>\<open>tcgetattr\<close> and \<^verbatim>\<open>tcsetattr\<close> succeed.
\<close>

definition setup_terminal :: "bool \<Rightarrow> bool \<Rightarrow> tty \<Rightarrow> bool \<times> tty" where
  "setup_terminal tcgetattr_ok tcsetattr_ok t =
     (if \<not> tcgetattr_ok then (False, perror ''tcgetattr'' t)
      else
        let t1 = t\<lparr>g_old_termios := line_termios t\<rparr>;
            raw = (g_old_termios t1)
                    \<lparr>c_oflag := c_oflag (g_old_termios t1) AND NOT OPOST,
                     c_lflag := c_lflag (g_old_termios t1) AND NOT (ECHO OR ICANON)\<rparr>
        in if \<not> tcsetattr_ok then (False, perror ''tcsetattr'' t1)
           else (True,
                 printf (ESC # ''[?1049h'' @ ESC # ''[?7l'' @ ESC # ''[?25l'' @ ESC # ''[2J'' @
                         ESC # ''[3;'' @ dec_int (g_row t1) @ ''r'')
                   (t1\<lparr>line_termios := raw\<rparr>)))"

subsection \<open>\<^verbatim>\<open>spawn\<close>\<close>

text \<open>
  How a call ends: it returns; the process exits with a status; the process image is
  replaced (\<^verbatim>\<open>execlp\<close> in the child, with its working directory, command and argument);
  it waits for ever; or it depends on a byte or an entry that the code reads outside the
  string or the listing.
\<close>

datatype 'a outcome =
    Return 'a
  | Exit int tty
  | Exec string string "string option" tty
  | Blocked
  | Undefined

fun bind :: "'a outcome \<Rightarrow> ('a \<Rightarrow> 'b outcome) \<Rightarrow> 'b outcome" where
  "bind (Return a) f = f a"
| "bind (Exit status t) f = Exit status t"
| "bind (Exec dir cmd arg t) f = Exec dir cmd arg t"
| "bind Blocked f = Blocked"
| "bind Undefined f = Undefined"

definition EXIT_SUCCESS :: int where "EXIT_SUCCESS = 0"
definition EXIT_FAILURE :: int where "EXIT_FAILURE = 1"

datatype wstatus = W_EXITED int | W_SIGNALED int | W_STOPPED int

fun WIFEXITED :: "wstatus \<Rightarrow> bool" where
  "WIFEXITED (W_EXITED code) = True"
| "WIFEXITED _ = False"

fun WIFSIGNALED :: "wstatus \<Rightarrow> bool" where
  "WIFSIGNALED (W_SIGNALED sig) = True"
| "WIFSIGNALED _ = False"

text \<open>
  What the system answers to the calls of one loop iteration other than those of
  \<^verbatim>\<open>read_dir\<close>: the value of \<^verbatim>\<open>fork\<close>, the success of the terminal calls, of \<^verbatim>\<open>chdir\<close>
  and \<^verbatim>\<open>execlp\<close> in the child, the statuses that the successive \<^verbatim>\<open>waitpid\<close> calls
  report, and what the C library's \<^verbatim>\<open>dirname\<close> does to the path buffer: it leaves the
  buffer as it is or writes one NUL into it, and \<open>dirname p\<close> is the length of the string
  that the buffer holds afterwards.
\<close>

record sys =
  fork :: int
  tcsetattr_restore :: bool
  tcgetattr_setup :: bool
  tcsetattr_setup :: bool
  chdir_ok :: bool
  execlp_ok :: bool
  waitpid :: "wstatus list"
  dirname :: "string \<Rightarrow> nat"

text \<open>The \<^verbatim>\<open>do ... while\<close> loop around \<^verbatim>\<open>waitpid\<close>: does it come to an end?\<close>

fun wait_child :: "wstatus list \<Rightarrow> bool" where
  "wait_child [] = False"
| "wait_child (status # rest) =
     (if \<not> WIFEXITED status \<and> \<not> WIFSIGNALED status then wait_child rest else True)"

definition spawn :: "sys \<Rightarrow> string \<Rightarrow> string \<Rightarrow> string option \<Rightarrow> tty \<Rightarrow> tty outcome" where
  "spawn y path cmd argv1 t =
     (let pid = fork y in
      if pid < 0 then Return t
      else
        let t1 = restore_terminal (tcsetattr_restore y) t in
        if pid = 0 then
          (if \<not> chdir_ok y then Exit EXIT_FAILURE t1
           else if execlp_ok y then Exec path cmd argv1 t1
           else Exit EXIT_FAILURE t1)
        else if wait_child (waitpid y) then
          Return (snd (setup_terminal (tcgetattr_setup y) (tcsetattr_setup y) t1))
        else Blocked)"

subsection \<open>\<^verbatim>\<open>draw_line\<close>\<close>

text \<open>The name is read through the pointer, in the buffer \<open>mem\<close> of the stream.\<close>

definition draw_line :: "dirbuf \<Rightarrow> direlement \<Rightarrow> bool \<Rightarrow> string" where
  "draw_line mem ent is_sel =
     (case type ent of
        TYPE_DIR \<Rightarrow> ESC # ''[34;1m''
      | TYPE_SYML \<Rightarrow> ESC # ''[36;1m''
      | TYPE_SYML_TO_DIR \<Rightarrow> ESC # ''[36;1m''
      | TYPE_EXEC \<Rightarrow> ESC # ''[32;1m''
      | TYPE_NORM \<Rightarrow> ESC # ''[0m'') @
     (if is_sel then ''>  '' @ mem (d_name ent) else ''  '' @ mem (d_name ent) @ '' '')"

subsection \<open>The path buffer\<close>

text \<open>
  \<^verbatim>\<open>path\<close> is \<^verbatim>\<open>malloc(PATH_MAX)\<close> (line 306). \<^verbatim>\<open>strcpy\<close> and \<^verbatim>\<open>strcat\<close> into it do not check
  its size: the result is \<open>None\<close> when the string with its NUL does not fit, for the call
  then writes past the end of the buffer and the behaviour is undefined.
\<close>

definition PATH_MAX :: nat where
  "PATH_MAX = 4096"

definition strcpy :: "string \<Rightarrow> string option" where
  "strcpy src = (if length src < PATH_MAX then Some src else None)"

definition strcat :: "string \<Rightarrow> string \<Rightarrow> string option" where
  "strcat dst src = (if length dst + length src < PATH_MAX then Some (dst @ src) else None)"

subsection \<open>The loop of \<^verbatim>\<open>main\<close>\<close>

text \<open>
  The strings that \<^verbatim>\<open>main\<close> fixes before its loop, and the variables of the loop. The
  listing \<open>ents\<close> is the first \<open>n\<close> elements of the buffer of elements, so \<open>n\<close> is its
  length; \<open>last_dir\<close> is the buffer of the stream that \<^verbatim>\<open>last_dir\<close> points to, which the
  names of the listing point into and which no call touches between two readings, or
  \<open>None\<close> for \<^verbatim>\<open>NULL\<close>; \<open>unlinked\<close> records the calls of \<^verbatim>\<open>unlinkat\<close> (directory, name,
  flags), whose effect is on the file system and whose result the code ignores. The file
  system is not a part of the state: every iteration receives the answers of the system
  anew, so that any change between two readings is covered.
\<close>

record config =
  editor :: string
  shell :: string
  home :: string
  user_and_hostname :: string

record state =
  path :: string
  show_hidden :: bool
  fetch_dir :: bool
  sel :: nat
  ents :: "direlement list"
  ents_size :: nat
  last_dir :: "dirbuf option"
  unlinked :: "(string \<times> string \<times> int) list"
  terminal :: tty

definition AT_REMOVEDIR :: int where
  "AT_REMOVEDIR = 0x200"

text \<open>
  Lines 372-376: the variables when the loop starts, with the path \<open>p\<close> that the buffer of
  the path holds by then.
\<close>

definition init_state :: "string \<Rightarrow> tty \<Rightarrow> state" where
  "init_state p t =
     \<lparr>path = p, show_hidden = False, fetch_dir = True, sel = 0, ents = [],
      ents_size = ENT_ALLOC_NUM, last_dir = None, unlinked = [], terminal = t\<rparr>"

text \<open>\<^verbatim>\<open>exit\<close> in the main process runs \<^verbatim>\<open>restore_terminal\<close>, registered with \<^verbatim>\<open>atexit\<close>.\<close>

definition exit_main :: "int \<Rightarrow> sys \<Rightarrow> tty \<Rightarrow> 'a outcome" where
  "exit_main status y t = Exit status (restore_terminal (tcsetattr_restore y) t)"

text \<open>The character constant \<^verbatim>\<open>'c'\<close> of C, an \<^verbatim>\<open>int\<close>.\<close>

definition key :: "char \<Rightarrow> int" where
  "key ch = int (of_char ch)"

text \<open>
  Lines 385-404: what a full redraw writes. The lines of a listing that is not empty
  read the names in the buffer of the stream; there is none to read them in when
  \<^verbatim>\<open>last_dir\<close> is \<^verbatim>\<open>NULL\<close>.
\<close>

definition redraw ::
  "config \<Rightarrow> string \<Rightarrow> dirbuf option \<Rightarrow> direlement list \<Rightarrow> nat \<Rightarrow> string option" where
  "redraw cfg p ld es sl =
     (let header = ESC # ''[2J'' @ ESC # ''[H'' @ user_and_hostname cfg @ ESC # ''[34;1m'' @ p @
                   CRLF @ [CHR 0x0A];
          footer = ESC # ''[3;1H''
      in if length es = 0 then
           Some (header @ ESC # ''[31;7mdirectory empty'' @ ESC # ''[27m'' @ footer)
         else
           (case ld of
              None \<Rightarrow> None
            | Some mem \<Rightarrow>
                Some (header @
                      concat (map (\<lambda>i. draw_line mem (es ! i) (i = sl) @ CRLF) [0..<length es]) @
                      footer)))"

text \<open>Lines 379-405: the block \<^verbatim>\<open>if (fetch_dir) { ... }\<close>.\<close>

definition refresh :: "config \<Rightarrow> env \<Rightarrow> sys \<Rightarrow> state \<Rightarrow> state outcome" where
  "refresh cfg e y s =
     (if fetch_dir s then
        (case read_dir e (path s) (ents_size s) (show_hidden s) of
           Inl err \<Rightarrow> exit_main EXIT_FAILURE y (perror ''realloc'' (terminal s))
         | Inr (es, sz, ld) \<Rightarrow>
             (case redraw cfg (path s) ld es 0 of
                None \<Rightarrow> Undefined
              | Some bytes \<Rightarrow>
                  Return (s\<lparr>fetch_dir := False, sel := 0, ents := es, ents_size := sz,
                            last_dir := ld, terminal := printf bytes (terminal s)\<rparr>)))
      else Return s)"

text \<open>
  Lines 411-438: the first \<^verbatim>\<open>switch\<close>. \<^verbatim>\<open>dirname\<close> cuts the path in its buffer;
  \<^verbatim>\<open>strcpy(path, "/")\<close> always fits.
\<close>

definition first_switch :: "config \<Rightarrow> sys \<Rightarrow> state \<Rightarrow> int \<Rightarrow> state outcome" where
  "first_switch cfg y s c =
     (if c = key CHR ''h'' then
        Return (s\<lparr>path := take (dirname y (path s)) (path s), fetch_dir := True\<rparr>)
      else if c = key CHR ''~'' then
        (case strcpy (home cfg) of
           None \<Rightarrow> Undefined
         | Some p \<Rightarrow> Return (s\<lparr>path := p, fetch_dir := True\<rparr>))
      else if c = key CHR ''/'' then Return (s\<lparr>path := ''/'', fetch_dir := True\<rparr>)
      else if c = key CHR ''.'' then
        Return (s\<lparr>show_hidden := \<not> show_hidden s, fetch_dir := True\<rparr>)
      else if c = key CHR ''r'' then Return (s\<lparr>fetch_dir := True\<rparr>)
      else if c = key CHR ''s'' then
        bind (spawn y (path s) (shell cfg) None (terminal s))
          (\<lambda>t. Return (s\<lparr>terminal := t, fetch_dir := True\<rparr>))
      else if c = key CHR ''q'' then exit_main EXIT_SUCCESS y (terminal s)
      else Return s)"

text \<open>
  \<^verbatim>\<open>ents[sel]\<close>: an entry of the listing; for \<open>sel\<close> outside the listing the code would
  read whatever the buffer of elements holds there.
\<close>

definition with_entry :: "state \<Rightarrow> (direlement \<Rightarrow> 'a outcome) \<Rightarrow> 'a outcome" where
  "with_entry s f = (if sel s < length (ents s) then f (ents s ! sel s) else Undefined)"

text \<open>
  Reading a name through its pointer needs the buffer of the stream; without a stream
  the pointer points nowhere.
\<close>

definition with_names :: "state \<Rightarrow> (dirbuf \<Rightarrow> 'a outcome) \<Rightarrow> 'a outcome" where
  "with_names s f = (case last_dir s of None \<Rightarrow> Undefined | Some mem \<Rightarrow> f mem)"

text \<open>
  Line 485: the row that \<^verbatim>\<open>G\<close> moves the cursor to,
  \<^verbatim>\<open>2 + (n < ((size_t)g_row - 3) ? n : (size_t)g_row)\<close>, in 64-bit \<^verbatim>\<open>size_t\<close> arithmetic.
\<close>

definition bottom_row :: "nat \<Rightarrow> int \<Rightarrow> nat" where
  "bottom_row n row =
     unat (2 + (if (word_of_nat n :: 64 word) < word_of_int row - 3 then word_of_nat n
                else word_of_int row) :: 64 word)"

text \<open>
  Lines 463-472, the key \<^verbatim>\<open>l\<close> on the entry \<open>ent\<close>: the test of \<^verbatim>\<open>path[1]\<close> and the two
  \<^verbatim>\<open>strcat\<close> calls.
\<close>

definition enter :: "state \<Rightarrow> direlement \<Rightarrow> state outcome" where
  "enter s ent =
     (if type ent = TYPE_DIR \<or> type ent = TYPE_SYML_TO_DIR then
        (case byte_at (path s) 1 of
           None \<Rightarrow> Undefined
         | Some b \<Rightarrow>
             (case (if b \<noteq> NUL then strcat (path s) ''/'' else Some (path s)) of
                None \<Rightarrow> Undefined
              | Some p1 \<Rightarrow>
                  with_names s (\<lambda>mem.
                    (case strcat p1 (mem (d_name ent)) of
                       None \<Rightarrow> Undefined
                     | Some p2 \<Rightarrow> Return (s\<lparr>path := p2, fetch_dir := True\<rparr>)))))
      else Return s)"

text \<open>
  Lines 444-503: the second \<^verbatim>\<open>switch\<close>, reached only with \<open>n \<noteq> 0\<close>, so that \<open>n - 1\<close>
  does not wrap around.
\<close>

definition second_switch :: "config \<Rightarrow> sys \<Rightarrow> state \<Rightarrow> int \<Rightarrow> state outcome" where
  "second_switch cfg y s c =
     (let n = length (ents s) in
      if c = key CHR ''j'' then
        (if sel s < n - 1 then
           with_entry s (\<lambda>ent. with_names s (\<lambda>mem.
             Return (s\<lparr>sel := sel s + 1,
                       terminal := printf (draw_line mem ent False @ CRLF @
                                           draw_line mem (ents s ! (sel s + 1)) True @
                                           [CHR 0x0D])
                                     (terminal s)\<rparr>)))
         else Return s)
      else if c = key CHR ''k'' then
        (if sel s > 0 then
           with_entry s (\<lambda>ent. with_names s (\<lambda>mem.
             Return (s\<lparr>sel := sel s - 1,
                       terminal := printf (draw_line mem ent False @ CHR 0x0D # ESC # ''[A'' @
                                           draw_line mem (ents s ! (sel s - 1)) True @
                                           [CHR 0x0D])
                                     (terminal s)\<rparr>)))
         else Return s)
      else if c = key CHR ''l'' then
        with_entry s (\<lambda>ent. enter s ent)
      else if c = key CHR ''g'' then
        with_entry s (\<lambda>ent. with_names s (\<lambda>mem.
          Return (s\<lparr>sel := 0,
                    terminal := printf (draw_line mem ent False @ ESC # ''[3;1H'' @
                                        draw_line mem (ents s ! 0) True @ [CHR 0x0D])
                                  (terminal s)\<rparr>)))
      else if c = key CHR ''G'' then
        with_entry s (\<lambda>ent. with_names s (\<lambda>mem.
          Return (s\<lparr>sel := n - 1,
                    terminal := printf (draw_line mem ent False @
                                        ESC # ''['' @ dec (bottom_row n (g_row (terminal s))) @
                                        '';1H'' @
                                        draw_line mem (ents s ! (n - 1)) True @ [CHR 0x0D])
                                  (terminal s)\<rparr>)))
      else if c = key CHR ''e'' then
        with_entry s (\<lambda>ent. with_names s (\<lambda>mem.
          bind (spawn y (path s) (editor cfg) (Some (mem (d_name ent))) (terminal s))
            (\<lambda>t. Return (s\<lparr>terminal := t, fetch_dir := True\<rparr>))))
      else if c = key CHR ''x'' then
        with_entry s (\<lambda>ent. with_names s (\<lambda>mem.
          Return (s\<lparr>unlinked := unlinked s @
                      [(path s, mem (d_name ent),
                        if type ent = TYPE_DIR then AT_REMOVEDIR else 0)],
                    fetch_dir := True\<rparr>)))
      else Return s)"

text \<open>Lines 409-503: one key, through both switches.\<close>

definition handle_key :: "config \<Rightarrow> sys \<Rightarrow> state \<Rightarrow> int \<Rightarrow> state outcome" where
  "handle_key cfg y s c =
     bind (first_switch cfg y s c)
       (\<lambda>s'. if length (ents s') = 0 then Return s' else second_switch cfg y s' c)"

text \<open>One iteration of \<^verbatim>\<open>for (;;)\<close>, with the value \<open>c\<close> of \<^verbatim>\<open>getchar\<close>.\<close>

definition loop_body :: "config \<Rightarrow> env \<Rightarrow> sys \<Rightarrow> state \<Rightarrow> int \<Rightarrow> state outcome" where
  "loop_body cfg e y s c = bind (refresh cfg e y s) (\<lambda>s'. handle_key cfg y s' c)"

text \<open>
  The loop over a finite sequence of inputs: for each iteration the answers of the file
  system, of the other system calls, and the key read.
\<close>

fun run :: "config \<Rightarrow> state \<Rightarrow> (env \<times> sys \<times> int) list \<Rightarrow> state outcome" where
  "run cfg s [] = Return s"
| "run cfg s ((e, y, c) # rest) = bind (loop_body cfg e y s c) (\<lambda>s'. run cfg s' rest)"

section \<open>Notions of the specification\<close>

text \<open>A name is a C string: it holds no NUL byte.\<close>

definition cstring :: "string \<Rightarrow> bool" where
  "cstring s = (NUL \<notin> set s)"

text \<open>The name that a \<^verbatim>\<open>readdir\<close> call returns: the string at its pointer, in its buffer.\<close>

definition name_read :: "addr \<times> dirbuf \<Rightarrow> string" where
  "name_read r = snd r (fst r)"

text \<open>
  The names that the pointers of a stream lead to when the stream has been read to its
  end are C strings.
\<close>

definition names_are_cstrings :: "env \<Rightarrow> string \<Rightarrow> bool" where
  "names_are_cstrings e dir =
     (case opendir e dir of
        None \<Rightarrow> True
      | Some d \<Rightarrow> list_all (\<lambda>r. cstring (at_end d (fst r))) (readdir d))"

text \<open>
  The names survive: when the stream has been read to its end, every pointer that it has
  handed out still leads to the name returned with it. This is so when the whole
  directory comes in one filling of the buffer.
\<close>

definition names_survive :: "env \<Rightarrow> string \<Rightarrow> bool" where
  "names_survive e dir =
     (case opendir e dir of
        None \<Rightarrow> True
      | Some d \<Rightarrow> list_all (\<lambda>r. at_end d (fst r) = name_read r) (readdir d))"

text \<open>The kinds Directory and SymlinkToDirectory, which the ordering puts first.\<close>

definition is_dir_type :: "etype \<Rightarrow> bool" where
  "is_dir_type t = (t = TYPE_DIR \<or> t = TYPE_SYML_TO_DIR)"

text \<open>
  The order of the specification: the directory kinds before the others, and the
  byte-wise lexicographic order of the names within each of the two groups.
\<close>

definition entry_le :: "dirbuf \<Rightarrow> direlement \<Rightarrow> direlement \<Rightarrow> bool" where
  "entry_le mem a b =
     ((is_dir_type (type a) \<and> \<not> is_dir_type (type b)) \<or>
      (is_dir_type (type a) = is_dir_type (type b) \<and> mem (d_name a) \<le> mem (d_name b)))"

text \<open>
  The members that \<^verbatim>\<open>read_dir\<close> keeps, by their names, and the element it writes for a
  member that it keeps.
\<close>

definition visible :: "env \<Rightarrow> string \<Rightarrow> bool \<Rightarrow> string \<Rightarrow> bool" where
  "visible e dir hidden name =
     (\<not> is_dot_or_dotdot name \<and>
      (hidden \<or> byte_at name 0 \<noteq> Some CHR ''.'') \<and>
      fstatat e dir name AT_SYMLINK_NOFOLLOW \<noteq> None)"

definition kept :: "env \<Rightarrow> string \<Rightarrow> bool \<Rightarrow> addr \<times> dirbuf \<Rightarrow> bool" where
  "kept e dir hidden r = visible e dir hidden (name_read r)"

definition mk_entry :: "env \<Rightarrow> string \<Rightarrow> addr \<times> dirbuf \<Rightarrow> direlement" where
  "mk_entry e dir r =
     \<lparr>type = entry_type e dir (name_read r)
               (the (fstatat e dir (name_read r) AT_SYMLINK_NOFOLLOW)),
      d_name = fst r\<rparr>"

text \<open>The elements made, in the order of \<^verbatim>\<open>readdir\<close>: the listing before it is sorted.\<close>

definition unsorted_listing :: "env \<Rightarrow> string \<Rightarrow> bool \<Rightarrow> direlement list" where
  "unsorted_listing e dir hidden =
     (case opendir e dir of
        None \<Rightarrow> []
      | Some d \<Rightarrow> map (mk_entry e dir) (filter (kept e dir hidden) (readdir d)))"

text \<open>
  The listing that \<^verbatim>\<open>read_dir\<close> gives when it returns, and the buffer that the names of
  that listing point into.
\<close>

definition stream_buf :: "env \<Rightarrow> string \<Rightarrow> dirbuf option" where
  "stream_buf e dir = map_option at_end (opendir e dir)"

definition sorted_listing :: "env \<Rightarrow> string \<Rightarrow> bool \<Rightarrow> direlement list" where
  "sorted_listing e dir hidden =
     (case opendir e dir of
        None \<Rightarrow> []
      | Some d \<Rightarrow> qsort (unsorted_listing e dir hidden) (direlemcmp (at_end d)))"

text \<open>The names of a listing as the screen shows them: read through the pointers.\<close>

definition shown :: "dirbuf option \<Rightarrow> direlement list \<Rightarrow> string list" where
  "shown ld es =
     (case ld of None \<Rightarrow> [] | Some mem \<Rightarrow> map (\<lambda>ent. mem (d_name ent)) es)"

text \<open>
  The classification in the words of the specification, from the mode of the member
  itself and the answer of the second \<^verbatim>\<open>stat\<close>, which follows the link: a directory is a
  Directory; a symlink is a SymlinkToDirectory if following it succeeds and gives a
  directory, else a Symlink; a regular file with the owner's execute bit is an
  Executable; anything else is Regular.
\<close>

definition spec_kind :: "mode_t \<Rightarrow> mode_t option \<Rightarrow> etype" where
  "spec_kind sb followed =
     (if S_ISDIR sb then TYPE_DIR
      else if S_ISLNK sb then
        (case followed of
           Some sb' \<Rightarrow> if S_ISDIR sb' then TYPE_SYML_TO_DIR else TYPE_SYML
         | None \<Rightarrow> TYPE_SYML)
      else if S_ISREG sb \<and> sb AND S_IXUSR \<noteq> 0 then TYPE_EXEC
      else TYPE_NORM)"

text \<open>
  The classification that the code makes, case by case: as in the specification, but
  for a member that is neither a directory nor a symlink the owner's execute bit alone
  decides, whether the member is a regular file or not.
\<close>

definition classified :: "etype \<Rightarrow> mode_t \<Rightarrow> mode_t option \<Rightarrow> bool" where
  "classified t sb followed =
     ((S_ISDIR sb \<longrightarrow> t = TYPE_DIR) \<and>
      (S_ISLNK sb \<longrightarrow>
         t = (case followed of
                Some sb' \<Rightarrow> if S_ISDIR sb' then TYPE_SYML_TO_DIR else TYPE_SYML
              | None \<Rightarrow> TYPE_SYML)) \<and>
      (\<not> S_ISDIR sb \<and> \<not> S_ISLNK sb \<and> sb AND S_IXUSR \<noteq> 0 \<longrightarrow> t = TYPE_EXEC) \<and>
      (\<not> S_ISDIR sb \<and> \<not> S_ISLNK sb \<and> sb AND S_IXUSR = 0 \<longrightarrow> t = TYPE_NORM))"

text \<open>The invariant of the selection index.\<close>

definition sel_in_range :: "state \<Rightarrow> bool" where
  "sel_in_range s = (if ents s = [] then sel s = 0 else sel s < length (ents s))"

text \<open>
  A state in which a key is read, and whose listing is the one that \<^verbatim>\<open>read_dir\<close> returns
  on the file system \<open>e\<close> for the path and the visibility of the state: it is not stale,
  it holds that listing, in a buffer of elements that is large enough, and the names of
  the listing are read in the buffer of the stream of \<open>e\<close>. The selection is free.
\<close>

definition shows_listing_of :: "env \<Rightarrow> state \<Rightarrow> bool" where
  "shows_listing_of e s =
     (\<not> fetch_dir s \<and>
      ents s = sorted_listing e (path s) (show_hidden s) \<and>
      last_dir s = stream_buf e (path s) \<and>
      length (ents s) \<le> ents_size s)"

section \<open>Sample inputs\<close>

text \<open>
  A stream that delivers the whole directory in one filling of its buffer: the names
  with their addresses, each name behind its address from the first call to the end.
\<close>

definition buffer_of :: "(addr \<times> string) list \<Rightarrow> dirbuf" where
  "buffer_of al = (\<lambda>p. case map_of al p of Some name \<Rightarrow> name | None \<Rightarrow> [])"

definition one_filling :: "(addr \<times> string) list \<Rightarrow> dirstream" where
  "one_filling al =
     \<lparr>readdir = map (\<lambda>a. (fst a, buffer_of al)) al, at_end = buffer_of al\<rparr>"

text \<open>
  Scenario A of the specification: a directory with \<^verbatim>\<open>banana\<close> (a directory, mode
  040755), \<^verbatim>\<open>Apple\<close> and \<^verbatim>\<open>.hidden\<close> (regular files, 0100644) and \<^verbatim>\<open>cherry.sh\<close> (a regular
  file, 0100755).
\<close>

definition proj_names :: "(addr \<times> string) list" where
  "proj_names = [(19, ''.''), (43, ''..''), (67, ''cherry.sh''), (99, ''.hidden''),
                 (131, ''banana''), (163, ''Apple'')]"

definition scenario_A :: env where
  "scenario_A =
     \<lparr>opendir = (\<lambda>p. if p = ''/tmp/proj'' then Some (one_filling proj_names) else None),
      fstatat = (\<lambda>p name flags.
                  if p \<noteq> ''/tmp/proj'' then None
                  else if name = ''banana'' \<or> name = ''.'' \<or> name = ''..'' then Some 0x41ED
                  else if name = ''cherry.sh'' then Some 0x81ED
                  else if name = ''Apple'' \<or> name = ''.hidden'' then Some 0x81A4
                  else None),
      realloc_ok = (\<lambda>k. True)\<rparr>"

text \<open>A directory that holds one socket of mode 0140755 (\<^verbatim>\<open>srwxr-xr-x\<close>).\<close>

definition app_names :: "(addr \<times> string) list" where
  "app_names = [(19, ''.''), (43, ''..''), (67, ''ctl.sock'')]"

definition socket_dir :: env where
  "socket_dir =
     \<lparr>opendir = (\<lambda>p. if p = ''/run/app'' then Some (one_filling app_names) else None),
      fstatat = (\<lambda>p name flags.
                  if p \<noteq> ''/run/app'' then None
                  else if name = ''ctl.sock'' then Some 0xC1ED
                  else if name = ''.'' \<or> name = ''..'' then Some 0x41ED
                  else None),
      realloc_ok = (\<lambda>k. True)\<rparr>"

text \<open>
  A directory that may be read but not searched (mode 0444): \<^verbatim>\<open>readdir\<close> gives its
  names, and every \<^verbatim>\<open>fstatat\<close> on them fails.
\<close>

definition locked_names :: "(addr \<times> string) list" where
  "locked_names = [(19, ''.''), (43, ''..''), (67, ''.profile''), (99, ''notes'')]"

definition unsearchable_dir :: env where
  "unsearchable_dir =
     \<lparr>opendir = (\<lambda>p. if p = ''/srv/locked'' then Some (one_filling locked_names) else None),
      fstatat = (\<lambda>p name flags. None),
      realloc_ok = (\<lambda>k. True)\<rparr>"





text \<open>
  A stream whose buffer holds two entries and is filled twice: \<^verbatim>\<open>alpha\<close> and \<^verbatim>\<open>beta\<close>
  first, then \<^verbatim>\<open>gamma\<close> and \<^verbatim>\<open>delta\<close> at the same two addresses. All four are regular
  files, \<^verbatim>\<open>alpha\<close> with the owner's execute bit.
\<close>

definition first_filling :: dirbuf where
  "first_filling = buffer_of [(19, ''alpha''), (51, ''beta'')]"

definition second_filling :: dirbuf where
  "second_filling = buffer_of [(19, ''gamma''), (51, ''delta'')]"

definition refilled_dir :: env where
  "refilled_dir =
     \<lparr>opendir = (\<lambda>p. if p = ''/mnt/big''
                  then Some \<lparr>readdir = [(19, first_filling), (51, first_filling),
                                        (19, second_filling), (51, second_filling)],
                             at_end = second_filling\<rparr>
                  else None),
      fstatat = (\<lambda>p name flags.
                  if p \<noteq> ''/mnt/big'' then None
                  else if name = ''alpha'' then Some 0x81ED
                  else if name = ''beta'' \<or> name = ''gamma'' \<or> name = ''delta'' then Some 0x81A4
                  else None),
      realloc_ok = (\<lambda>k. True)\<rparr>"

text \<open>
  Scenario B of the specification: a directory of five regular files, none hidden.
\<close>

definition data_names :: "(addr \<times> string) list" where
  "data_names = [(19, ''.''), (43, ''..''), (67, ''e''), (91, ''d''), (115, ''c''),
                 (139, ''b''), (163, ''a'')]"

definition five_files :: env where
  "five_files =
     \<lparr>opendir = (\<lambda>p. if p = ''/data'' then Some (one_filling data_names) else None),
      fstatat = (\<lambda>p name flags. if p = ''/data'' then Some 0x81A4 else None),
      realloc_ok = (\<lambda>k. True)\<rparr>"

text \<open>A terminal of 24 rows and 80 columns, in raw mode, and the strings of a session.\<close>

definition tty0 :: tty where
  "tty0 =
     \<lparr>line_termios = \<lparr>c_iflag = 0x500, c_oflag = 0x4, c_cflag = 0xBF, c_lflag = 0x8A31\<rparr>,
      g_old_termios = \<lparr>c_iflag = 0x500, c_oflag = 0x5, c_cflag = 0xBF, c_lflag = 0x8A3B\<rparr>,
      g_row = 24, g_col = 80, stdout = [], stderr = [], sigwinch = HANDLE_WINCH\<rparr>"

definition cfg0 :: config where
  "cfg0 = \<lparr>editor = ''vi'', shell = ''/bin/sh'', home = ''/home/u'',
           user_and_hostname = ESC # ''[32;1mu@host'' @ ESC # ''[0m:''\<rparr>"

text \<open>
  The \<^verbatim>\<open>dirname\<close> of the GNU C library, by the place where it writes its NUL. The two
  loops: \<open>slashes_back p r\<close> steps back from \<open>r\<close> over the slashes before it, and
  \<open>memrchr_slash p k\<close> is the last slash among the first \<open>k\<close> bytes. A slash that ends the
  path is passed over, with the slashes before it; the path is cut before the run of
  slashes that ends at the last slash left, or after the first byte when that run starts
  the path (after the second when the path starts with exactly two slashes); a path
  without such a slash is left as it is.
\<close>

fun slashes_back :: "string \<Rightarrow> nat \<Rightarrow> nat" where
  "slashes_back p 0 = 0"
| "slashes_back p (Suc r) = (if p ! r = CHR ''/'' then slashes_back p r else Suc r)"

fun memrchr_slash :: "string \<Rightarrow> nat \<Rightarrow> nat option" where
  "memrchr_slash p 0 = None"
| "memrchr_slash p (Suc k) = (if p ! k = CHR ''/'' then Some k else memrchr_slash p k)"

definition glibc_dirname :: "string \<Rightarrow> nat" where
  "glibc_dirname p =
     (let last_slash = memrchr_slash p (length p);
          last_slash' =
            (case last_slash of
               None \<Rightarrow> None
             | Some l \<Rightarrow>
                 if l \<noteq> 0 \<and> Suc l = length p then
                   (let runp = slashes_back p l
                    in if runp \<noteq> 0 then memrchr_slash p runp else Some l)
                 else Some l)
      in case last_slash' of
           None \<Rightarrow> length p
         | Some l \<Rightarrow>
             (let runp = slashes_back p l
              in if runp = 0 then (if l = 1 then 2 else 1) else runp))"

text \<open>A system in which every call succeeds and the child exits at once.\<close>

definition sys0 :: sys where
  "sys0 =
     \<lparr>fork = 4711, tcsetattr_restore = True, tcgetattr_setup = True, tcsetattr_setup = True,
      chdir_ok = True, execlp_ok = True, waitpid = [W_EXITED 0],
      dirname = glibc_dirname\<rparr>"

text \<open>The same system when no process can be created: \<^verbatim>\<open>fork\<close> returns \<open>-1\<close>.\<close>

definition sys_no_fork :: sys where
  "sys_no_fork = sys0\<lparr>fork := - 1\<rparr>"

text \<open>
  A session started as \<^verbatim>\<open>filet .\<close> in a directory that holds the directory \<^verbatim>\<open>src\<close>, after
  its first listing.
\<close>

definition started_in_dot :: state where
  "started_in_dot =
     \<lparr>path = ''.'', show_hidden = False, fetch_dir = False, sel = 0,
      ents = [\<lparr>type = TYPE_DIR, d_name = 67\<rparr>], ents_size = 64,
      last_dir = Some (buffer_of [(19, ''.''), (43, ''..''), (67, ''src'')]),
      unlinked = [], terminal = tty0\<rparr>"

text \<open>Sessions in \<^verbatim>\<open>/\<close> and in \<^verbatim>\<open>/usr\<close>, each with one directory listed and selected.\<close>

definition at_root :: state where
  "at_root =
     \<lparr>path = ''/'', show_hidden = False, fetch_dir = False, sel = 0,
      ents = [\<lparr>type = TYPE_DIR, d_name = 67\<rparr>], ents_size = 64,
      last_dir = Some (buffer_of [(19, ''.''), (43, ''..''), (67, ''usr'')]),
      unlinked = [], terminal = tty0\<rparr>"

definition at_usr :: state where
  "at_usr =
     \<lparr>path = ''/usr'', show_hidden = False, fetch_dir = False, sel = 0,
      ents = [\<lparr>type = TYPE_SYML_TO_DIR, d_name = 67\<rparr>], ents_size = 64,
      last_dir = Some (buffer_of [(19, ''.''), (43, ''..''), (67, ''lib'')]),
      unlinked = [], terminal = tty0\<rparr>"

text \<open>
  A session sixteen directories deep, each named by 254 bytes, so that the path has 4080
  bytes, with the directory \<^verbatim>\<open>node_modules.old\<close> listed and selected.
\<close>

definition at_depth :: state where
  "at_depth =
     \<lparr>path = concat (replicate 16 (CHR ''/'' # replicate 254 CHR ''d'')),
      show_hidden = False, fetch_dir = False,
      sel = 0, ents = [\<lparr>type = TYPE_DIR, d_name = 67\<rparr>], ents_size = 64,
      last_dir = Some (buffer_of [(19, ''.''), (43, ''..''), (67, ''node_modules.old'')]),
      unlinked = [], terminal = tty0\<rparr>"

section \<open>The order of a listing\<close>

lemma of_char_NUL: "of_char NUL = (0::nat)"
  by (simp add: NUL_def)

lemma of_char_eq_0_iff: "(of_char c = (0::nat)) = (c = NUL)"
  using of_char_eq_iff [of c NUL, where ?'a = nat] by (simp only: of_char_NUL)

text \<open>On C strings, \<^verbatim>\<open>strcmp\<close> decides the lexicographic order of the bytes.\<close>

lemma strcmp_le_iff: "cstring a \<Longrightarrow> (strcmp a b \<le> 0) = (a \<le> b)"
proof (induction a b rule: strcmp.induct)
  case 1
  then show ?case by simp
next
  case (2 y ys)
  then show ?case by simp
next
  case (3 x xs)
  then show ?case by (auto simp: cstring_def of_char_eq_0_iff)
next
  case (4 x xs y ys)
  show ?case
  proof (cases "x = y")
    case True
    then show ?thesis using 4 by (simp add: cstring_def)
  next
    case False
    then have "(of_char x :: nat) \<noteq> of_char y" by simp
    moreover have "(x < y) = ((of_char x :: nat) < of_char y)"
      by (simp only: less_char_def)
    ultimately have "(int (of_char x) - int (of_char y) \<le> 0) = (x < y)"
      by linarith
    then show ?thesis using False by simp
  qed
qed

lemma direlemcmp_le_iff:
  "cstring (mem (d_name a)) \<Longrightarrow> (direlemcmp mem a b \<le> 0) = entry_le mem a b"
  by (auto simp: direlemcmp_def entry_le_def is_dir_type_def Let_def strcmp_le_iff)

lemma entry_le_total: "entry_le mem a b \<or> entry_le mem b a"
  by (auto simp: entry_le_def)

lemma entry_le_trans: "entry_le mem a b \<Longrightarrow> entry_le mem b c \<Longrightarrow> entry_le mem a c"
  by (auto simp: entry_le_def)

lemma set_qsort_insert: "set (qsort_insert compar x xs) = insert x (set xs)"
  by (induction xs) auto

lemma set_qsort: "set (qsort xs compar) = set xs"
  by (induction xs) (auto simp: set_qsort_insert)

lemma length_qsort_insert: "length (qsort_insert compar x xs) = Suc (length xs)"
  by (induction xs) auto

lemma length_qsort: "length (qsort xs compar) = length xs"
  by (induction xs) (auto simp: length_qsort_insert)

lemma sorted_qsort_insert:
  assumes "cstring (mem (d_name x))" and "sorted_wrt (entry_le mem) xs"
  shows "sorted_wrt (entry_le mem) (qsort_insert (direlemcmp mem) x xs)"
  using assms
proof (induction xs)
  case Nil
  then show ?case by simp
next
  case (Cons y ys)
  show ?case
  proof (cases "direlemcmp mem x y \<le> 0")
    case True
    then have "entry_le mem x y"
      using Cons.prems(1) by (simp add: direlemcmp_le_iff)
    then have "\<forall>z\<in>set (y # ys). entry_le mem x z"
      using Cons.prems(2) by (auto intro: entry_le_trans)
    then show ?thesis
      using True Cons.prems(2) by simp
  next
    case False
    then have "\<not> entry_le mem x y"
      using Cons.prems(1) by (simp add: direlemcmp_le_iff)
    then have "entry_le mem y x"
      using entry_le_total by blast
    then show ?thesis
      using False Cons by (auto simp: set_qsort_insert)
  qed
qed

lemma sorted_qsort:
  "\<forall>x\<in>set xs. cstring (mem (d_name x)) \<Longrightarrow>
   sorted_wrt (entry_le mem) (qsort xs (direlemcmp mem))"
  by (induction xs) (auto simp: sorted_qsort_insert)

section \<open>What \<^verbatim>\<open>read_dir\<close> returns\<close>

lemma read_entries_skip:
  "\<not> kept e dir h r \<Longrightarrow>
   read_entries e dir h (r # rest) acc sz = read_entries e dir h rest acc sz"
  by (cases r) (auto simp: kept_def visible_def name_read_def Let_def)

lemma read_entries_keep:
  "kept e dir h r \<Longrightarrow>
   read_entries e dir h (r # rest) acc sz =
     (if length acc = sz \<and> \<not> realloc_ok e (sz + ENT_ALLOC_NUM) then Inl ReallocFailed
      else read_entries e dir h rest (acc @ [mk_entry e dir r])
             (if length acc = sz then sz + ENT_ALLOC_NUM else sz))"
  by (cases r) (auto simp: kept_def visible_def mk_entry_def name_read_def Let_def)

text \<open>A listing that is returned holds the elements made, in the order of \<^verbatim>\<open>readdir\<close>.\<close>

lemma read_entries_Inr:
  "read_entries e dir h reads acc sz = Inr (es, sz') \<Longrightarrow>
   es = acc @ map (mk_entry e dir) (filter (kept e dir h) reads)"
proof (induction reads arbitrary: acc sz)
  case Nil
  then show ?case by simp
next
  case (Cons r rest)
  show ?case
  proof (cases "kept e dir h r")
    case False
    then have "read_entries e dir h (r # rest) acc sz = read_entries e dir h rest acc sz"
      by (rule read_entries_skip)
    then show ?thesis
      using Cons False by simp
  next
    case True
    let ?sz = "if length acc = sz then sz + ENT_ALLOC_NUM else sz"
    have "read_entries e dir h rest (acc @ [mk_entry e dir r]) ?sz = Inr (es, sz')"
      using Cons.prems read_entries_keep [OF True, of rest acc sz]
      by (simp del: read_entries.simps split: if_splits)
    from Cons.IH [OF this] show ?thesis
      using True by simp
  qed
qed

text \<open>The capacity never shrinks, and it holds the listing.\<close>

lemma read_entries_size:
  "read_entries e dir h reads acc sz = Inr (es, sz') \<Longrightarrow> length acc \<le> sz \<Longrightarrow>
   sz \<le> sz' \<and> length es \<le> sz'"
proof (induction reads arbitrary: acc sz)
  case Nil
  then show ?case by simp
next
  case (Cons r rest)
  show ?case
  proof (cases "kept e dir h r")
    case False
    then have "read_entries e dir h (r # rest) acc sz = read_entries e dir h rest acc sz"
      by (rule read_entries_skip)
    then show ?thesis
      using Cons by simp
  next
    case True
    let ?sz = "if length acc = sz then sz + ENT_ALLOC_NUM else sz"
    have r: "read_entries e dir h rest (acc @ [mk_entry e dir r]) ?sz = Inr (es, sz')"
      using Cons.prems(1) read_entries_keep [OF True, of rest acc sz]
      by (simp del: read_entries.simps split: if_splits)
    have "length (acc @ [mk_entry e dir r]) \<le> ?sz"
      using Cons.prems(2) by (simp add: ENT_ALLOC_NUM_def)
    from Cons.IH [OF r this] show ?thesis
      by (simp split: if_splits)
  qed
qed

text \<open>When the capacity suffices, \<^verbatim>\<open>realloc\<close> is not called and the listing is returned.\<close>

lemma read_entries_fits:
  "length acc + length (filter (kept e dir h) reads) \<le> sz \<Longrightarrow>
   read_entries e dir h reads acc sz =
     Inr (acc @ map (mk_entry e dir) (filter (kept e dir h) reads), sz)"
proof (induction reads arbitrary: acc)
  case Nil
  then show ?case by simp
next
  case (Cons r rest)
  show ?case
  proof (cases "kept e dir h r")
    case False
    then have "read_entries e dir h (r # rest) acc sz = read_entries e dir h rest acc sz"
      by (rule read_entries_skip)
    then show ?thesis
      using Cons False by simp
  next
    case True
    then have lt: "length acc < sz"
      using Cons.prems by simp
    have "length (acc @ [mk_entry e dir r]) + length (filter (kept e dir h) rest) \<le> sz"
      using Cons.prems True by simp
    from Cons.IH [OF this] show ?thesis
      using True lt read_entries_keep [OF True, of rest acc sz]
      by (simp del: read_entries.simps)
  qed
qed



lemma read_dir_Inr:
  assumes "read_dir e dir sz h = Inr (es, sz', ld)"
  shows "es = sorted_listing e dir h \<and> ld = stream_buf e dir"
proof (cases "opendir e dir")
  case None
  then show ?thesis
    using assms by (simp add: read_dir_def sorted_listing_def stream_buf_def)
next
  case (Some d)
  then obtain us where us: "read_entries e dir h (readdir d) [] sz = Inr (us, sz')"
    and es: "es = qsort us (direlemcmp (at_end d))" and ld: "ld = Some (at_end d)"
    using assms by (auto simp: read_dir_def split: sum.splits)
  from read_entries_Inr [OF us] show ?thesis
    using Some es ld by (simp add: sorted_listing_def unsorted_listing_def stream_buf_def)
qed

lemma length_sorted_listing:
  "length (sorted_listing e dir h) = length (unsorted_listing e dir h)"
  by (cases "opendir e dir")
    (simp_all add: sorted_listing_def unsorted_listing_def length_qsort)

lemma set_sorted_listing: "set (sorted_listing e dir h) = set (unsorted_listing e dir h)"
  by (cases "opendir e dir") (simp_all add: sorted_listing_def unsorted_listing_def set_qsort)

lemma read_dir_size:
  assumes "read_dir e dir sz h = Inr (es, sz', ld)"
  shows "sz \<le> sz' \<and> length es \<le> sz'"
proof (cases "opendir e dir")
  case None
  then show ?thesis
    using assms by (simp add: read_dir_def)
next
  case (Some d)
  then obtain us where us: "read_entries e dir h (readdir d) [] sz = Inr (us, sz')"
    and es: "es = qsort us (direlemcmp (at_end d))"
    using assms by (auto simp: read_dir_def split: sum.splits)
  from read_entries_size [OF us] show ?thesis
    using es by (simp add: length_qsort)
qed

lemma read_dir_fits:
  assumes "length (unsorted_listing e dir h) \<le> sz"
  shows "read_dir e dir sz h = Inr (sorted_listing e dir h, sz, stream_buf e dir)"
proof (cases "opendir e dir")
  case None
  then show ?thesis
    by (simp add: read_dir_def sorted_listing_def stream_buf_def)
next
  case (Some d)
  then have "length [] + length (filter (kept e dir h) (readdir d)) \<le> sz"
    using assms by (simp add: unsorted_listing_def)
  from read_entries_fits [OF this] show ?thesis
    using Some by (simp add: read_dir_def sorted_listing_def unsorted_listing_def stream_buf_def)
qed



lemma d_name_mk_entry: "d_name (mk_entry e dir r) = fst r"
  by (simp add: mk_entry_def)

lemma member_of_listing:
  assumes "read_dir e dir sz h = Inr (es, sz', ld)" and "ent \<in> set es"
  shows "\<exists>d r. opendir e dir = Some d \<and> r \<in> set (readdir d) \<and> kept e dir h r \<and>
    ent = mk_entry e dir r"
proof (cases "opendir e dir")
  case None
  then show ?thesis
    using read_dir_Inr [OF assms(1)] assms(2) by (simp add: sorted_listing_def)
next
  case (Some d)
  have "ent \<in> set (unsorted_listing e dir h)"
    using read_dir_Inr [OF assms(1)] assms(2) by (simp add: set_sorted_listing)
  then obtain r where "r \<in> set (readdir d)" "kept e dir h r" "ent = mk_entry e dir r"
    using Some by (auto simp: unsorted_listing_def)
  then show ?thesis
    using Some by blast
qed

lemma listing_of_member:
  assumes "read_dir e dir sz h = Inr (es, sz', ld)" and "opendir e dir = Some d"
    and "r \<in> set (readdir d)" and "kept e dir h r"
  shows "mk_entry e dir r \<in> set es"
  using read_dir_Inr [OF assms(1)] assms(2,3,4)
  by (auto simp: set_sorted_listing unsorted_listing_def)

text \<open>When the names survive, the screen shows the names of the members kept.\<close>

lemma shown_names:
  assumes "read_dir e dir sz h = Inr (es, sz', ld)" and "names_survive e dir"
  shows "set (shown ld es) =
    (case opendir e dir of
       None \<Rightarrow> {}
     | Some d \<Rightarrow> name_read ` {r \<in> set (readdir d). kept e dir h r})"
proof (cases "opendir e dir")
  case None
  then show ?thesis
    using read_dir_Inr [OF assms(1)] by (simp add: stream_buf_def shown_def)
next
  case (Some d)
  have surv: "at_end d (fst r) = name_read r" if "r \<in> set (readdir d)" for r
    using assms(2) Some that by (simp add: names_survive_def list_all_iff)
  have "set (shown ld es) = (\<lambda>ent. at_end d (d_name ent)) ` set (unsorted_listing e dir h)"
    using read_dir_Inr [OF assms(1)] Some
    by (simp add: stream_buf_def shown_def set_sorted_listing)
  also have "\<dots> = (\<lambda>r. at_end d (fst r)) ` {r \<in> set (readdir d). kept e dir h r}"
    using Some by (simp add: unsorted_listing_def image_image d_name_mk_entry)
  also have "\<dots> = name_read ` {r \<in> set (readdir d). kept e dir h r}"
    using surv by (intro image_cong) simp_all
  finally show ?thesis
    using Some by simp
qed

lemma is_dot_or_dotdot_iff:
  assumes "cstring name"
  shows "is_dot_or_dotdot name = (name = ''.'' \<or> name = ''..'')"
proof (cases name)
  case Nil
  then show ?thesis
    by (simp add: is_dot_or_dotdot_def byte_at_def NUL_def)
next
  case (Cons a r1)
  note name1 = Cons
  show ?thesis
  proof (cases r1)
    case Nil
    then show ?thesis
      using name1 by (simp add: is_dot_or_dotdot_def byte_at_def)
  next
    case (Cons b r2)
    note name2 = Cons
    have b: "b \<noteq> NUL"
      using assms name1 name2 by (auto simp: cstring_def)
    show ?thesis
    proof (cases r2)
      case Nil
      then show ?thesis
        using name1 name2 b by (simp add: is_dot_or_dotdot_def byte_at_def)
    next
      case (Cons c r3)
      then have "c \<noteq> NUL"
        using assms name1 name2 by (auto simp: cstring_def)
      then show ?thesis
        using name1 name2 Cons b by (simp add: is_dot_or_dotdot_def byte_at_def)
    qed
  qed
qed

lemma dots_never_visible: "\<not> visible e dir h ''.''" "\<not> visible e dir h ''..''"
  by (simp_all add: visible_def is_dot_or_dotdot_def byte_at_def)

lemma byte_at_0_dot: "(byte_at name 0 = Some CHR ''.'') = (take 1 name = ''.'')"
  by (cases name) (simp_all add: byte_at_def NUL_def)

lemmas read_dir_eval = read_dir_def is_dot_or_dotdot_def byte_at_def entry_type_def
  S_ISDIR_def S_ISLNK_def S_ISREG_def S_IFMT_def S_IFDIR_def S_IFLNK_def S_IFREG_def
  S_IXUSR_def AT_SYMLINK_NOFOLLOW_def ENT_ALLOC_NUM_def NUL_def direlemcmp_def Let_def
  one_filling_def buffer_of_def

text \<open>Scenario A of the specification, with and without the hidden entries.\<close>

lemma scenario_A_all:
  "read_dir scenario_A ''/tmp/proj'' 64 True =
     Inr ([\<lparr>type = TYPE_DIR, d_name = 131\<rparr>, \<lparr>type = TYPE_NORM, d_name = 99\<rparr>,
           \<lparr>type = TYPE_NORM, d_name = 163\<rparr>, \<lparr>type = TYPE_EXEC, d_name = 67\<rparr>],
          64, Some (buffer_of proj_names))"
  "shown (Some (buffer_of proj_names))
     [\<lparr>type = TYPE_DIR, d_name = 131\<rparr>, \<lparr>type = TYPE_NORM, d_name = 99\<rparr>,
      \<lparr>type = TYPE_NORM, d_name = 163\<rparr>, \<lparr>type = TYPE_EXEC, d_name = 67\<rparr>] =
     [''banana'', ''.hidden'', ''Apple'', ''cherry.sh'']"
  by (simp_all add: scenario_A_def proj_names_def shown_def read_dir_eval)

lemma scenario_A_plain:
  "read_dir scenario_A ''/tmp/proj'' 64 False =
     Inr ([\<lparr>type = TYPE_DIR, d_name = 131\<rparr>, \<lparr>type = TYPE_NORM, d_name = 163\<rparr>,
           \<lparr>type = TYPE_EXEC, d_name = 67\<rparr>],
          64, Some (buffer_of proj_names))"
  "shown (Some (buffer_of proj_names))
     [\<lparr>type = TYPE_DIR, d_name = 131\<rparr>, \<lparr>type = TYPE_NORM, d_name = 163\<rparr>,
      \<lparr>type = TYPE_EXEC, d_name = 67\<rparr>] =
     [''banana'', ''Apple'', ''cherry.sh'']"
  by (simp_all add: scenario_A_def proj_names_def shown_def read_dir_eval)

lemma scenario_A_cstrings: "names_are_cstrings scenario_A ''/tmp/proj''"
  by (simp add: names_are_cstrings_def scenario_A_def proj_names_def one_filling_def
      buffer_of_def cstring_def NUL_def)

lemma scenario_A_survives: "names_survive scenario_A ''/tmp/proj''"
  by (simp add: names_survive_def scenario_A_def proj_names_def one_filling_def
      buffer_of_def name_read_def)

text \<open>
  A stream that fills its buffer twice: the pointers stored during the first filling lead
  to the names of the second when the listing is sorted and drawn. The screen shows
  \<^verbatim>\<open>delta\<close> and \<^verbatim>\<open>gamma\<close> twice each, and neither \<^verbatim>\<open>alpha\<close> nor \<^verbatim>\<open>beta\<close>.
\<close>

lemma refilled_listing:
  "\<exists>es ld. read_dir refilled_dir ''/mnt/big'' 64 False = Inr (es, 64, ld) \<and>
      shown ld es = [''delta'', ''delta'', ''gamma'', ''gamma'']"
  by (simp add: refilled_dir_def first_filling_def second_filling_def shown_def read_dir_eval)

section \<open>The claims on the directory model\<close>

text \<open>
  Claim C1. In every listing that \<^verbatim>\<open>read_dir\<close> returns for a directory whose names are C
  strings, every entry of kind Directory or SymlinkToDirectory stands before every entry
  of another kind, and within each of the two groups the names ascend in the byte-wise
  lexicographic order. The names are those that the pointers of the listing lead to, in
  the buffer returned with it: the names that the screen shows.
\<close>

theorem listing_order:
  assumes "read_dir e dir sz h = Inr (es, sz', ld)"
    and "names_are_cstrings e dir"
    and "i < length es" and "j < length es"
  shows "\<exists>mem. ld = Some mem \<and>
         (is_dir_type (type (es ! i)) \<and> \<not> is_dir_type (type (es ! j)) \<longrightarrow> i < j) \<and>
         (i < j \<and> is_dir_type (type (es ! i)) = is_dir_type (type (es ! j))
            \<longrightarrow> mem (d_name (es ! i)) \<le> mem (d_name (es ! j)))"
proof -
  note rd = read_dir_Inr [OF assms(1)]
  have "opendir e dir \<noteq> None"
  proof
    assume "opendir e dir = None"
    then have "es = []"
      using rd by (simp add: sorted_listing_def)
    then show False
      using assms(3) by simp
  qed
  then obtain d where d: "opendir e dir = Some d"
    by blast
  have es: "es = qsort (unsorted_listing e dir h) (direlemcmp (at_end d))"
    and ld: "ld = Some (at_end d)"
    using rd d by (simp_all add: sorted_listing_def stream_buf_def)
  have "\<forall>x\<in>set (unsorted_listing e dir h). cstring (at_end d (d_name x))"
    using assms(2) d
    by (auto simp: names_are_cstrings_def unsorted_listing_def d_name_mk_entry list_all_iff)
  then have sorted: "sorted_wrt (entry_le (at_end d)) es"
    unfolding es by (rule sorted_qsort)
  have le: "entry_le (at_end d) (es ! a) (es ! b)" if "a < b" "b < length es" for a b
    using sorted that by (simp add: sorted_wrt_iff_nth_less)
  have "i < j" if "is_dir_type (type (es ! i))" "\<not> is_dir_type (type (es ! j))"
  proof (rule ccontr)
    assume "\<not> i < j"
    then have "j < i \<or> j = i" by arith
    then show False
    proof
      assume "j < i"
      then have "entry_le (at_end d) (es ! j) (es ! i)"
        using assms(3) by (rule le)
      then show False
        using that by (simp add: entry_le_def)
    next
      assume "j = i"
      then show False
        using that by simp
    qed
  qed
  moreover have "at_end d (d_name (es ! i)) \<le> at_end d (d_name (es ! j))"
    if "i < j" "is_dir_type (type (es ! i)) = is_dir_type (type (es ! j))"
    using le [OF that(1) assms(4)] that(2) by (auto simp: entry_le_def)
  ultimately show ?thesis
    using ld by blast
qed

theorem listing_order_witness:
  "read_dir scenario_A ''/tmp/proj'' 64 True =
     Inr ([\<lparr>type = TYPE_DIR, d_name = 131\<rparr>, \<lparr>type = TYPE_NORM, d_name = 99\<rparr>,
           \<lparr>type = TYPE_NORM, d_name = 163\<rparr>, \<lparr>type = TYPE_EXEC, d_name = 67\<rparr>],
          64, Some (buffer_of proj_names)) \<and>
   names_are_cstrings scenario_A ''/tmp/proj'' \<and>
   buffer_of proj_names 99 = ''.hidden'' \<and> buffer_of proj_names 163 = ''Apple'' \<and>
   buffer_of proj_names 67 = ''cherry.sh'' \<and>
   ''.hidden'' \<le> ''Apple'' \<and> ''Apple'' \<le> ''cherry.sh''"
proof -
  let ?es = "[\<lparr>type = TYPE_DIR, d_name = 131\<rparr>, \<lparr>type = TYPE_NORM, d_name = 99\<rparr>,
              \<lparr>type = TYPE_NORM, d_name = 163\<rparr>, \<lparr>type = TYPE_EXEC, d_name = 67\<rparr>]"
  have r: "read_dir scenario_A ''/tmp/proj'' 64 True =
      Inr (?es, 64, Some (buffer_of proj_names))"
    by (rule scenario_A_all)
  have c: "names_are_cstrings scenario_A ''/tmp/proj''"
    by (rule scenario_A_cstrings)
  have n: "buffer_of proj_names 99 = ''.hidden''" "buffer_of proj_names 163 = ''Apple''"
    "buffer_of proj_names 67 = ''cherry.sh''"
    by (simp_all add: buffer_of_def proj_names_def)
  have "(1::nat) < length ?es" and "(2::nat) < length ?es" and "(3::nat) < length ?es"
    by simp_all
  from listing_order [OF r c this(1) this(2)] listing_order [OF r c this(2) this(3)]
  have "buffer_of proj_names 99 \<le> buffer_of proj_names 163 \<and>
      buffer_of proj_names 163 \<le> buffer_of proj_names 67"
    by (simp add: is_dir_type_def)
  with r c n show ?thesis by simp
qed







text \<open>
  Claim C4, as stated, fails: a socket of mode \<^verbatim>\<open>srwxr-xr-x\<close> is no regular file, so the
  specification calls it Regular, and \<^verbatim>\<open>read_dir\<close> gives it the type \<^verbatim>\<open>TYPE_EXEC\<close>.
\<close>

theorem classification_counterexample:
  "read_dir socket_dir ''/run/app'' 64 False =
     Inr ([\<lparr>type = TYPE_EXEC, d_name = 67\<rparr>], 64, Some (buffer_of app_names)) \<and>
   buffer_of app_names 67 = ''ctl.sock'' \<and>
   fstatat socket_dir ''/run/app'' ''ctl.sock'' AT_SYMLINK_NOFOLLOW = Some 0xC1ED \<and>
   \<not> S_ISREG 0xC1ED \<and>
   spec_kind 0xC1ED (fstatat socket_dir ''/run/app'' ''ctl.sock'' 0) = TYPE_NORM"
  by (simp add: socket_dir_def app_names_def spec_kind_def read_dir_eval)

lemma entry_type_classified:
  "classified (entry_type e dir name sb) sb (fstatat e dir name 0)"
proof -
  have "\<not> (S_ISDIR sb \<and> S_ISLNK sb)"
    by (auto simp: S_ISDIR_def S_ISLNK_def S_IFDIR_def S_IFLNK_def)
  then show ?thesis
    by (auto simp: classified_def entry_type_def split: option.splits)
qed

lemma entry_type_spec_kind:
  "S_ISREG sb \<or> sb AND S_IXUSR = 0 \<or> S_ISDIR sb \<or> S_ISLNK sb \<Longrightarrow>
   entry_type e dir name sb = spec_kind sb (fstatat e dir name 0)"
  by (auto simp: entry_type_def spec_kind_def split: option.splits)

text \<open>
  Claim C4, amended, over the enumeration. Every member that \<^verbatim>\<open>readdir\<close> returns and
  \<^verbatim>\<open>read_dir\<close> keeps has an element in the listing, with the pointer returned for it, and
  every element of the listing is the element of such a member. With \<open>sb\<close> the mode of
  the member itself, under the name returned for it: a directory has the type
  \<^verbatim>\<open>TYPE_DIR\<close>; a symlink has \<^verbatim>\<open>TYPE_SYML_TO_DIR\<close> if the \<^verbatim>\<open>stat\<close> that follows the link
  succeeds and gives a directory, else \<^verbatim>\<open>TYPE_SYML\<close>; any other member, regular file or
  not, has \<^verbatim>\<open>TYPE_EXEC\<close> if the owner's execute bit is set and \<^verbatim>\<open>TYPE_NORM\<close> if not. This
  is the classification of the specification except on the members that are no regular
  files and carry the owner's execute bit.
\<close>

theorem classification:
  assumes "read_dir e dir sz h = Inr (es, sz', ld)"
  shows "(\<forall>d r. opendir e dir = Some d \<and> r \<in> set (readdir d) \<and> kept e dir h r \<longrightarrow>
            (\<exists>sb ent. fstatat e dir (name_read r) AT_SYMLINK_NOFOLLOW = Some sb \<and>
               ent \<in> set es \<and> d_name ent = fst r \<and>
               classified (type ent) sb (fstatat e dir (name_read r) 0) \<and>
               (S_ISREG sb \<or> sb AND S_IXUSR = 0 \<or> S_ISDIR sb \<or> S_ISLNK sb \<longrightarrow>
                  type ent = spec_kind sb (fstatat e dir (name_read r) 0)))) \<and>
         (\<forall>ent\<in>set es.
            \<exists>d r sb. opendir e dir = Some d \<and> r \<in> set (readdir d) \<and> kept e dir h r \<and>
               d_name ent = fst r \<and>
               fstatat e dir (name_read r) AT_SYMLINK_NOFOLLOW = Some sb \<and>
               classified (type ent) sb (fstatat e dir (name_read r) 0))"
proof -
  have made: "\<exists>sb. fstatat e dir (name_read r) AT_SYMLINK_NOFOLLOW = Some sb \<and>
      type (mk_entry e dir r) = entry_type e dir (name_read r) sb"
    if "kept e dir h r" for r
    using that by (auto simp: kept_def visible_def mk_entry_def)
  have 1: "\<exists>sb ent. fstatat e dir (name_read r) AT_SYMLINK_NOFOLLOW = Some sb \<and>
               ent \<in> set es \<and> d_name ent = fst r \<and>
               classified (type ent) sb (fstatat e dir (name_read r) 0) \<and>
               (S_ISREG sb \<or> sb AND S_IXUSR = 0 \<or> S_ISDIR sb \<or> S_ISLNK sb \<longrightarrow>
                  type ent = spec_kind sb (fstatat e dir (name_read r) 0))"
    if "opendir e dir = Some d" "r \<in> set (readdir d)" "kept e dir h r" for d r
  proof -
    from made [OF that(3)] obtain sb
      where sb: "fstatat e dir (name_read r) AT_SYMLINK_NOFOLLOW = Some sb"
        and ty: "type (mk_entry e dir r) = entry_type e dir (name_read r) sb"
      by blast
    have in_es: "mk_entry e dir r \<in> set es"
      using assms that by (rule listing_of_member)
    have cl: "classified (type (mk_entry e dir r)) sb (fstatat e dir (name_read r) 0)"
      unfolding ty by (rule entry_type_classified)
    have sp: "S_ISREG sb \<or> sb AND S_IXUSR = 0 \<or> S_ISDIR sb \<or> S_ISLNK sb \<longrightarrow>
        type (mk_entry e dir r) = spec_kind sb (fstatat e dir (name_read r) 0)"
      unfolding ty using entry_type_spec_kind [of sb e dir "name_read r"] by (rule impI)
    show ?thesis
    proof (intro exI conjI)
      show "fstatat e dir (name_read r) AT_SYMLINK_NOFOLLOW = Some sb"
        by (rule sb)
      show "mk_entry e dir r \<in> set es"
        by (rule in_es)
      show "d_name (mk_entry e dir r) = fst r"
        by (rule d_name_mk_entry)
      show "classified (type (mk_entry e dir r)) sb (fstatat e dir (name_read r) 0)"
        by (rule cl)
      show "S_ISREG sb \<or> sb AND S_IXUSR = 0 \<or> S_ISDIR sb \<or> S_ISLNK sb \<longrightarrow>
          type (mk_entry e dir r) = spec_kind sb (fstatat e dir (name_read r) 0)"
        by (rule sp)
    qed
  qed
  have 2: "\<exists>d r sb. opendir e dir = Some d \<and> r \<in> set (readdir d) \<and> kept e dir h r \<and>
               d_name ent = fst r \<and>
               fstatat e dir (name_read r) AT_SYMLINK_NOFOLLOW = Some sb \<and>
               classified (type ent) sb (fstatat e dir (name_read r) 0)"
    if "ent \<in> set es" for ent
  proof -
    from member_of_listing [OF assms that] obtain d r
      where d: "opendir e dir = Some d" "r \<in> set (readdir d)" "kept e dir h r"
        and ent: "ent = mk_entry e dir r"
      by blast
    from made [OF d(3)] obtain sb
      where sb: "fstatat e dir (name_read r) AT_SYMLINK_NOFOLLOW = Some sb"
        and ty: "type (mk_entry e dir r) = entry_type e dir (name_read r) sb"
      by blast
    have "classified (type ent) sb (fstatat e dir (name_read r) 0)"
      unfolding ent ty by (rule entry_type_classified)
    then show ?thesis
      using d sb unfolding ent
      by (intro exI [of _ d] exI [of _ r] exI [of _ sb] conjI) (simp_all only: d_name_mk_entry)
  qed
  show ?thesis
  proof (intro conjI allI impI ballI)
    fix d r
    assume "opendir e dir = Some d \<and> r \<in> set (readdir d) \<and> kept e dir h r"
    then have "opendir e dir = Some d" "r \<in> set (readdir d)" "kept e dir h r"
      by simp_all
    then show "\<exists>sb ent. fstatat e dir (name_read r) AT_SYMLINK_NOFOLLOW = Some sb \<and>
               ent \<in> set es \<and> d_name ent = fst r \<and>
               classified (type ent) sb (fstatat e dir (name_read r) 0) \<and>
               (S_ISREG sb \<or> sb AND S_IXUSR = 0 \<or> S_ISDIR sb \<or> S_ISLNK sb \<longrightarrow>
                  type ent = spec_kind sb (fstatat e dir (name_read r) 0))"
      by (rule 1)
  next
    fix ent
    assume "ent \<in> set es"
    then show "\<exists>d r sb. opendir e dir = Some d \<and> r \<in> set (readdir d) \<and> kept e dir h r \<and>
               d_name ent = fst r \<and>
               fstatat e dir (name_read r) AT_SYMLINK_NOFOLLOW = Some sb \<and>
               classified (type ent) sb (fstatat e dir (name_read r) 0)"
      by (rule 2)
  qed
qed

theorem classification_witness:
  "read_dir scenario_A ''/tmp/proj'' 64 False =
     Inr ([\<lparr>type = TYPE_DIR, d_name = 131\<rparr>, \<lparr>type = TYPE_NORM, d_name = 163\<rparr>,
           \<lparr>type = TYPE_EXEC, d_name = 67\<rparr>],
          64, Some (buffer_of proj_names)) \<and>
   opendir scenario_A ''/tmp/proj'' = Some (one_filling proj_names) \<and>
   (67, buffer_of proj_names) \<in> set (readdir (one_filling proj_names)) \<and>
   name_read (67, buffer_of proj_names) = ''cherry.sh'' \<and>
   kept scenario_A ''/tmp/proj'' False (67, buffer_of proj_names) \<and>
   fstatat scenario_A ''/tmp/proj'' ''cherry.sh'' AT_SYMLINK_NOFOLLOW = Some 0x81ED \<and>
   S_ISREG 0x81ED \<and> (0x81ED :: mode_t) AND S_IXUSR \<noteq> 0 \<and>
   (\<exists>ent. ent \<in> set [\<lparr>type = TYPE_DIR, d_name = 131\<rparr>, \<lparr>type = TYPE_NORM, d_name = 163\<rparr>,
                       \<lparr>type = TYPE_EXEC, d_name = 67\<rparr>] \<and>
          d_name ent = 67 \<and> type ent = TYPE_EXEC \<and>
          type ent = spec_kind 0x81ED (fstatat scenario_A ''/tmp/proj'' ''cherry.sh'' 0))"
proof -
  let ?r = "(67, buffer_of proj_names)"
  let ?es = "[\<lparr>type = TYPE_DIR, d_name = 131\<rparr>, \<lparr>type = TYPE_NORM, d_name = 163\<rparr>,
              \<lparr>type = TYPE_EXEC, d_name = 67\<rparr>]"
  have o: "opendir scenario_A ''/tmp/proj'' = Some (one_filling proj_names)"
    by (simp add: scenario_A_def)
  have m: "?r \<in> set (readdir (one_filling proj_names))"
    by (simp add: one_filling_def proj_names_def)
  have n: "name_read ?r = ''cherry.sh''"
    by (simp add: name_read_def buffer_of_def proj_names_def)
  have sb: "fstatat scenario_A ''/tmp/proj'' ''cherry.sh'' AT_SYMLINK_NOFOLLOW = Some 0x81ED"
    by (simp add: scenario_A_def)
  have k: "kept scenario_A ''/tmp/proj'' False ?r"
    using sb by (simp add: kept_def n visible_def is_dot_or_dotdot_def byte_at_def)
  have reg: "S_ISREG (0x81ED :: mode_t)" and x: "(0x81ED :: mode_t) AND S_IXUSR \<noteq> 0"
    by (simp_all add: S_ISREG_def S_IFMT_def S_IFREG_def S_IXUSR_def)
  have nd: "\<not> S_ISDIR (0x81ED :: mode_t)" "\<not> S_ISLNK (0x81ED :: mode_t)"
    by (simp_all add: S_ISDIR_def S_ISLNK_def S_IFMT_def S_IFDIR_def S_IFLNK_def)
  note member = classification [OF scenario_A_plain(1), THEN conjunct1, rule_format,
      of "one_filling proj_names" ?r]
  from member [OF conjI [OF o conjI [OF m k]]] obtain sb' ent
    where sb1: "fstatat scenario_A ''/tmp/proj'' (name_read ?r) AT_SYMLINK_NOFOLLOW = Some sb'"
      and e1: "ent \<in> set ?es" and e2: "d_name ent = fst ?r"
      and c: "classified (type ent) sb' (fstatat scenario_A ''/tmp/proj'' (name_read ?r) 0)"
      and s: "S_ISREG sb' \<or> sb' AND S_IXUSR = 0 \<or> S_ISDIR sb' \<or> S_ISLNK sb' \<longrightarrow>
          type ent = spec_kind sb' (fstatat scenario_A ''/tmp/proj'' (name_read ?r) 0)"
    by (elim exE conjE)
  have sb': "sb' = 0x81ED"
    using sb1 sb unfolding n by simp
  have t1: "type ent = TYPE_EXEC"
    using c nd x unfolding sb' classified_def by (elim conjE) simp
  have t2: "type ent = spec_kind 0x81ED (fstatat scenario_A ''/tmp/proj'' ''cherry.sh'' 0)"
    using s reg unfolding sb' n by simp
  have e3: "d_name ent = 67"
    using e2 by simp
  have ex: "\<exists>ent. ent \<in> set ?es \<and> d_name ent = 67 \<and> type ent = TYPE_EXEC \<and>
      type ent = spec_kind 0x81ED (fstatat scenario_A ''/tmp/proj'' ''cherry.sh'' 0)"
  proof (intro exI [of _ ent] conjI)
    show "ent \<in> set ?es" by (rule e1)
    show "d_name ent = 67" by (rule e3)
    show "type ent = TYPE_EXEC" by (rule t1)
    show "type ent = spec_kind 0x81ED (fstatat scenario_A ''/tmp/proj'' ''cherry.sh'' 0)"
      by (rule t2)
  qed
  from scenario_A_plain(1) o m n k sb reg x ex show ?thesis
    by (simp only: simp_thms)
qed


text \<open>
  Claim C5, as stated, fails: in a directory that may be read but not searched, the
  member \<^verbatim>\<open>.profile\<close> starts with a dot and is missing from the listing although the
  hidden entries are shown, since its \<^verbatim>\<open>stat\<close> fails.
\<close>

theorem hidden_counterexample:
  "opendir unsearchable_dir ''/srv/locked'' = Some (one_filling locked_names) \<and>
   map name_read (readdir (one_filling locked_names)) = [''.'', ''..'', ''.profile'', ''notes''] \<and>
   read_dir unsearchable_dir ''/srv/locked'' 64 True = Inr ([], 64, Some (buffer_of locked_names))"
  by (simp add: unsearchable_dir_def locked_names_def name_read_def read_dir_eval)

text \<open>
  Claim C5, amended. For every directory whose names survive in the buffer of the stream
  until it has been read to its end, and every \<open>show_hidden\<close> flag: the names \<^verbatim>\<open>.\<close> and
  \<^verbatim>\<open>..\<close> are not shown in the listing, and every other member whose name starts with a
  dot and whose \<^verbatim>\<open>stat\<close> succeeds is shown if and only if \<open>show_hidden\<close> is true. What is
  shown when a later \<^verbatim>\<open>readdir\<close> call overwrites a name is left open.
\<close>

theorem hidden_entries:
  assumes "read_dir e dir sz h = Inr (es, sz', ld)" and "names_survive e dir"
  shows "''.'' \<notin> set (shown ld es) \<and> ''..'' \<notin> set (shown ld es) \<and>
    (\<forall>d r.
       opendir e dir = Some d \<and> r \<in> set (readdir d) \<and> cstring (name_read r) \<and>
       name_read r \<noteq> ''.'' \<and> name_read r \<noteq> ''..'' \<and> take 1 (name_read r) = ''.'' \<and>
       fstatat e dir (name_read r) AT_SYMLINK_NOFOLLOW \<noteq> None
         \<longrightarrow> (name_read r \<in> set (shown ld es)) = h)"
proof -
  note names = shown_names [OF assms]
  have "''.'' \<notin> set (shown ld es)" and "''..'' \<notin> set (shown ld es)"
    using names dots_never_visible [of e dir h] by (auto simp: kept_def split: option.splits)
  moreover have "(name_read r \<in> set (shown ld es)) = h"
    if "opendir e dir = Some d" "r \<in> set (readdir d)" "cstring (name_read r)"
      "name_read r \<noteq> ''.''" "name_read r \<noteq> ''..''" "take 1 (name_read r) = ''.''"
      "fstatat e dir (name_read r) AT_SYMLINK_NOFOLLOW \<noteq> None"
    for d r
  proof -
    have "\<not> is_dot_or_dotdot (name_read r)"
      using that(3,4,5) by (simp add: is_dot_or_dotdot_iff)
    then have v: "visible e dir h (name_read r) = h"
      using that(6,7) by (simp add: visible_def byte_at_0_dot)
    have "(name_read r \<in> set (shown ld es)) =
        (name_read r \<in> name_read ` {r' \<in> set (readdir d). kept e dir h r'})"
      using names that(1) by simp
    also have "\<dots> = h"
    proof (cases h)
      case True
      then have "r \<in> {r' \<in> set (readdir d). kept e dir h r'}"
        using v that(2) by (simp add: kept_def)
      then show ?thesis
        using True by blast
    next
      case False
      then have "\<not> kept e dir h r'" if "name_read r' = name_read r" for r'
        using v that by (simp add: kept_def)
      then show ?thesis
        using False by auto
    qed
    finally show ?thesis .
  qed
  ultimately show ?thesis
    by blast
qed

theorem hidden_entries_witness:
  "read_dir scenario_A ''/tmp/proj'' 64 True =
     Inr ([\<lparr>type = TYPE_DIR, d_name = 131\<rparr>, \<lparr>type = TYPE_NORM, d_name = 99\<rparr>,
           \<lparr>type = TYPE_NORM, d_name = 163\<rparr>, \<lparr>type = TYPE_EXEC, d_name = 67\<rparr>],
          64, Some (buffer_of proj_names)) \<and>
   read_dir scenario_A ''/tmp/proj'' 64 False =
     Inr ([\<lparr>type = TYPE_DIR, d_name = 131\<rparr>, \<lparr>type = TYPE_NORM, d_name = 163\<rparr>,
           \<lparr>type = TYPE_EXEC, d_name = 67\<rparr>],
          64, Some (buffer_of proj_names)) \<and>
   names_survive scenario_A ''/tmp/proj'' \<and>
   opendir scenario_A ''/tmp/proj'' = Some (one_filling proj_names) \<and>
   (99, buffer_of proj_names) \<in> set (readdir (one_filling proj_names)) \<and>
   name_read (99, buffer_of proj_names) = ''.hidden'' \<and>
   cstring ''.hidden'' \<and> take 1 ''.hidden'' = ''.'' \<and>
   fstatat scenario_A ''/tmp/proj'' ''.hidden'' AT_SYMLINK_NOFOLLOW \<noteq> None \<and>
   ''.hidden'' \<in> set [''banana'', ''.hidden'', ''Apple'', ''cherry.sh''] \<and>
   ''.hidden'' \<notin> set [''banana'', ''Apple'', ''cherry.sh'']"
proof -
  let ?r = "(99, buffer_of proj_names)"
  have o: "opendir scenario_A ''/tmp/proj'' = Some (one_filling proj_names)"
    by (simp add: scenario_A_def)
  have m: "?r \<in> set (readdir (one_filling proj_names))"
    by (simp add: one_filling_def proj_names_def)
  have n: "name_read ?r = ''.hidden''"
    by (simp add: name_read_def buffer_of_def proj_names_def)
  have c: "cstring ''.hidden''" and d: "take 1 ''.hidden'' = ''.''"
    by (simp_all add: cstring_def NUL_def)
  have f: "fstatat scenario_A ''/tmp/proj'' ''.hidden'' AT_SYMLINK_NOFOLLOW \<noteq> None"
    by (simp add: scenario_A_def)
  have ne: "''.hidden'' \<noteq> ''.''" "''.hidden'' \<noteq> ''..''"
    by simp_all
  have p: "opendir scenario_A ''/tmp/proj'' = Some (one_filling proj_names) \<and>
      ?r \<in> set (readdir (one_filling proj_names)) \<and> cstring (name_read ?r) \<and>
      name_read ?r \<noteq> ''.'' \<and> name_read ?r \<noteq> ''..'' \<and> take 1 (name_read ?r) = ''.'' \<and>
      fstatat scenario_A ''/tmp/proj'' (name_read ?r) AT_SYMLINK_NOFOLLOW \<noteq> None"
    unfolding n using o m c d f ne by simp
  note shown_all = hidden_entries [OF scenario_A_all(1) scenario_A_survives,
      THEN conjunct2, THEN conjunct2, rule_format, of "one_filling proj_names" ?r]
  note shown_plain = hidden_entries [OF scenario_A_plain(1) scenario_A_survives,
      THEN conjunct2, THEN conjunct2, rule_format, of "one_filling proj_names" ?r]
  from shown_all [OF p]
  have 1: "''.hidden'' \<in> set [''banana'', ''.hidden'', ''Apple'', ''cherry.sh'']"
    unfolding n scenario_A_all(2) by simp
  from shown_plain [OF p]
  have 2: "''.hidden'' \<notin> set [''banana'', ''Apple'', ''cherry.sh'']"
    unfolding n scenario_A_plain(2) by simp
  from scenario_A_all(1) scenario_A_plain(1) scenario_A_survives o m n c d f 1 2
  show ?thesis
    by blast
qed

section \<open>The terminal and the child process\<close>

lemma bind_Return_iff: "(bind m f = Return b) = (\<exists>a. m = Return a \<and> f a = Return b)"
  by (cases m) simp_all

lemma bind_Return_right: "bind m Return = m"
  by (cases m) simp_all

lemma restore_terminal_geometry:
  "g_row (restore_terminal ok t) = g_row t" "g_col (restore_terminal ok t) = g_col t"
  by (simp_all add: restore_terminal_def printf_def perror_def Let_def)

lemma setup_terminal_geometry:
  "g_row (snd (setup_terminal ok1 ok2 t)) = g_row t"
  "g_col (snd (setup_terminal ok1 ok2 t)) = g_col t"
  by (simp_all add: setup_terminal_def printf_def perror_def Let_def)

lemma spawn_geometry:
  assumes "spawn y dir cmd arg t = Return t'"
  shows "g_row t' = g_row t \<and> g_col t' = g_col t"
proof (cases "fork y < 0")
  case True
  then show ?thesis
    using assms by (simp add: spawn_def)
next
  case False
  then have "t' = snd (setup_terminal (tcgetattr_setup y) (tcsetattr_setup y)
      (restore_terminal (tcsetattr_restore y) t))"
    using assms by (simp add: spawn_def Let_def split: if_splits)
  then show ?thesis
    by (simp add: setup_terminal_geometry restore_terminal_geometry)
qed

text \<open>
  Claim C9. When the creation of the process fails (\<^verbatim>\<open>fork\<close> returns a negative value),
  \<^verbatim>\<open>spawn\<close> returns and leaves the whole terminal state as it was: the attributes of the
  line, the saved attributes, the output written and the geometry.
\<close>

theorem spawn_fork_fails:
  assumes "fork y < 0"
  shows "spawn y dir cmd arg t = Return t"
  using assms by (simp add: spawn_def)

theorem spawn_fork_fails_witness:
  "fork sys_no_fork < 0 \<and>
   spawn sys_no_fork ''/tmp/proj'' ''vi'' (Some ''notes.txt'') tty0 = Return tty0 \<and>
   spawn sys0 ''/tmp/proj'' ''vi'' (Some ''notes.txt'') tty0 \<noteq> Return tty0"
proof -
  have f: "fork sys_no_fork < 0"
    by (simp add: sys_no_fork_def sys0_def)
  have "stdout (snd (setup_terminal True True (restore_terminal True tty0))) \<noteq> stdout tty0"
    by (simp add: setup_terminal_def restore_terminal_def printf_def tty0_def Let_def)
  then have "spawn sys0 ''/tmp/proj'' ''vi'' (Some ''notes.txt'') tty0 \<noteq> Return tty0"
    by (auto simp: spawn_def sys0_def Let_def)
  with f spawn_fork_fails [OF f, of "''/tmp/proj''" "''vi''" "Some ''notes.txt''" tty0]
  show ?thesis by blast
qed

section \<open>The loop of \<^verbatim>\<open>main\<close>\<close>

lemma key_values:
  "key CHR ''h'' = 104" "key CHR ''~'' = 126" "key CHR ''/'' = 47" "key CHR ''.'' = 46"
  "key CHR ''r'' = 114" "key CHR ''s'' = 115" "key CHR ''q'' = 113" "key CHR ''j'' = 106"
  "key CHR ''k'' = 107" "key CHR ''l'' = 108" "key CHR ''g'' = 103" "key CHR ''G'' = 71"
  "key CHR ''e'' = 101" "key CHR ''x'' = 120"
  by (simp_all add: key_def)

text \<open>The first switch, key by key.\<close>

lemma first_switch_keys:
  "first_switch cfg y s 104 =
     Return (s\<lparr>path := take (dirname y (path s)) (path s), fetch_dir := True\<rparr>)"
  "first_switch cfg y s 126 =
     (case strcpy (home cfg) of
        None \<Rightarrow> Undefined
      | Some p \<Rightarrow> Return (s\<lparr>path := p, fetch_dir := True\<rparr>))"
  "first_switch cfg y s 47 = Return (s\<lparr>path := ''/'', fetch_dir := True\<rparr>)"
  "first_switch cfg y s 46 = Return (s\<lparr>show_hidden := \<not> show_hidden s, fetch_dir := True\<rparr>)"
  "first_switch cfg y s 114 = Return (s\<lparr>fetch_dir := True\<rparr>)"
  "first_switch cfg y s 115 =
     bind (spawn y (path s) (shell cfg) None (terminal s))
       (\<lambda>t. Return (s\<lparr>terminal := t, fetch_dir := True\<rparr>))"
  "first_switch cfg y s 113 = exit_main EXIT_SUCCESS y (terminal s)"
  by (simp_all add: first_switch_def key_values)

lemma first_switch_other:
  assumes "c \<noteq> 104" "c \<noteq> 126" "c \<noteq> 47" "c \<noteq> 46" "c \<noteq> 114" "c \<noteq> 115" "c \<noteq> 113"
  shows "first_switch cfg y s c = Return s"
  using assms by (simp add: first_switch_def key_values)

lemma second_switch_unbound:
  assumes "c \<noteq> 106" "c \<noteq> 107" "c \<noteq> 108" "c \<noteq> 103" "c \<noteq> 71" "c \<noteq> 101" "c \<noteq> 120"
  shows "second_switch cfg y s c = Return s"
  using assms by (simp add: second_switch_def key_values Let_def)

lemma handle_key_toggle:
  "handle_key cfg y s (key CHR ''.'') =
     Return (s\<lparr>show_hidden := \<not> show_hidden s, fetch_dir := True\<rparr>)"
  by (simp add: handle_key_def key_values first_switch_keys second_switch_unbound)

text \<open>
  The first switch changes neither the listing nor the buffer of its names nor the
  selection nor the geometry.
\<close>

lemma first_switch_Return:
  assumes "first_switch cfg y s c = Return s'"
  shows "sel s' = sel s \<and> ents s' = ents s \<and> ents_size s' = ents_size s \<and>
    last_dir s' = last_dir s \<and>
    g_row (terminal s') = g_row (terminal s) \<and> g_col (terminal s') = g_col (terminal s)"
proof -
  consider "c = 104" | "c = 126" | "c = 47" | "c = 46" | "c = 114" | "c = 115" | "c = 113"
    | "c \<noteq> 104" "c \<noteq> 126" "c \<noteq> 47" "c \<noteq> 46" "c \<noteq> 114" "c \<noteq> 115" "c \<noteq> 113"
    by blast
  then show ?thesis
  proof cases
    case 2
    then show ?thesis
      using assms by (auto simp: first_switch_keys split: option.splits)
  next
    case 6
    then obtain t where t: "spawn y (path s) (shell cfg) None (terminal s) = Return t"
      and s': "s' = s\<lparr>terminal := t, fetch_dir := True\<rparr>"
      using assms by (auto simp: first_switch_keys bind_Return_iff)
    from spawn_geometry [OF t] s' show ?thesis by simp
  next
    case 7
    then show ?thesis
      using assms by (simp add: first_switch_keys exit_main_def)
  next
    case 8
    then show ?thesis
      using assms by (simp add: first_switch_other)
  qed (use assms in \<open>auto simp: first_switch_keys\<close>)
qed

text \<open>The second switch, key by key.\<close>

lemma with_entry_Return:
  "(with_entry s f = Return s') = (sel s < length (ents s) \<and> f (ents s ! sel s) = Return s')"
  by (simp add: with_entry_def)

lemma with_names_Return:
  "(with_names s f = Return s') = (\<exists>mem. last_dir s = Some mem \<and> f mem = Return s')"
  by (simp add: with_names_def split: option.splits)

lemma second_switch_j:
  "second_switch cfg y s 106 =
     (if sel s < length (ents s) - 1 then
        with_entry s (\<lambda>ent. with_names s (\<lambda>mem.
          Return (s\<lparr>sel := sel s + 1,
                    terminal := printf (draw_line mem ent False @ CRLF @
                                        draw_line mem (ents s ! (sel s + 1)) True @
                                        [CHR 0x0D])
                                  (terminal s)\<rparr>)))
      else Return s)"
  by (simp add: second_switch_def key_values Let_def)

lemma second_switch_k:
  "second_switch cfg y s 107 =
     (if sel s > 0 then
        with_entry s (\<lambda>ent. with_names s (\<lambda>mem.
          Return (s\<lparr>sel := sel s - 1,
                    terminal := printf (draw_line mem ent False @ CHR 0x0D # ESC # ''[A'' @
                                        draw_line mem (ents s ! (sel s - 1)) True @
                                        [CHR 0x0D])
                                  (terminal s)\<rparr>)))
      else Return s)"
  by (simp add: second_switch_def key_values Let_def)

lemma second_switch_l: "second_switch cfg y s 108 = with_entry s (\<lambda>ent. enter s ent)"
  by (simp add: second_switch_def key_values Let_def)

lemma second_switch_g:
  "second_switch cfg y s 103 =
     with_entry s (\<lambda>ent. with_names s (\<lambda>mem.
       Return (s\<lparr>sel := 0,
                 terminal := printf (draw_line mem ent False @ ESC # ''[3;1H'' @
                                     draw_line mem (ents s ! 0) True @ [CHR 0x0D])
                               (terminal s)\<rparr>)))"
  by (simp add: second_switch_def key_values Let_def)

lemma second_switch_G:
  "second_switch cfg y s 71 =
     with_entry s (\<lambda>ent. with_names s (\<lambda>mem.
       Return (s\<lparr>sel := length (ents s) - 1,
                 terminal := printf (draw_line mem ent False @ ESC # ''['' @
                                     dec (bottom_row (length (ents s)) (g_row (terminal s))) @
                                     '';1H'' @
                                     draw_line mem (ents s ! (length (ents s) - 1)) True @
                                     [CHR 0x0D])
                               (terminal s)\<rparr>)))"
  by (simp add: second_switch_def key_values Let_def)

lemma second_switch_e:
  "second_switch cfg y s 101 =
     with_entry s (\<lambda>ent. with_names s (\<lambda>mem.
       bind (spawn y (path s) (editor cfg) (Some (mem (d_name ent))) (terminal s))
         (\<lambda>t. Return (s\<lparr>terminal := t, fetch_dir := True\<rparr>))))"
  by (simp add: second_switch_def key_values Let_def)

lemma second_switch_x:
  "second_switch cfg y s 120 =
     with_entry s (\<lambda>ent. with_names s (\<lambda>mem.
       Return (s\<lparr>unlinked := unlinked s @
                   [(path s, mem (d_name ent),
                     if type ent = TYPE_DIR then AT_REMOVEDIR else 0)],
                 fetch_dir := True\<rparr>)))"
  by (simp add: second_switch_def key_values Let_def)

text \<open>The key \<^verbatim>\<open>l\<close> changes the path and the staleness only.\<close>

lemma enter_Return:
  assumes "enter s ent = Return s'"
  shows "\<exists>p. s' = s \<or> s' = s\<lparr>path := p, fetch_dir := True\<rparr>"
  using assms
  by (auto simp: enter_def with_names_def split: if_splits option.splits)

text \<open>
  The second switch changes neither the listing nor the buffer of its names nor the
  geometry.
\<close>

lemma second_switch_keeps:
  assumes "second_switch cfg y s c = Return s'"
  shows "ents s' = ents s \<and> ents_size s' = ents_size s \<and> last_dir s' = last_dir s \<and>
    g_row (terminal s') = g_row (terminal s) \<and> g_col (terminal s') = g_col (terminal s)"
proof -
  consider "c = 106" | "c = 107" | "c = 108" | "c = 103" | "c = 71" | "c = 101" | "c = 120"
    | "c \<noteq> 106" "c \<noteq> 107" "c \<noteq> 108" "c \<noteq> 103" "c \<noteq> 71" "c \<noteq> 101" "c \<noteq> 120"
    by blast
  then show ?thesis
  proof cases
    case 1
    then show ?thesis
      using assms
      by (auto simp: second_switch_j with_entry_Return with_names_Return printf_def
          split: if_splits)
  next
    case 2
    then show ?thesis
      using assms
      by (auto simp: second_switch_k with_entry_Return with_names_Return printf_def
          split: if_splits)
  next
    case 3
    then have "enter s (ents s ! sel s) = Return s'"
      using assms by (simp add: second_switch_l with_entry_Return)
    from enter_Return [OF this] show ?thesis
      by auto
  next
    case 4
    then show ?thesis
      using assms
      by (auto simp: second_switch_g with_entry_Return with_names_Return printf_def)
  next
    case 5
    then show ?thesis
      using assms
      by (auto simp: second_switch_G with_entry_Return with_names_Return printf_def)
  next
    case 6
    then obtain t mem where
      t: "spawn y (path s) (editor cfg) (Some (mem (d_name (ents s ! sel s)))) (terminal s) =
        Return t"
      and s': "s' = s\<lparr>terminal := t, fetch_dir := True\<rparr>"
      using assms
      by (auto simp: second_switch_e with_entry_Return with_names_Return bind_Return_iff)
    from spawn_geometry [OF t] s' show ?thesis by simp
  next
    case 7
    then show ?thesis
      using assms by (auto simp: second_switch_x with_entry_Return with_names_Return)
  next
    case 8
    then show ?thesis
      using assms by (simp add: second_switch_unbound)
  qed
qed

text \<open>The second switch keeps the selection within a listing that is not empty.\<close>

lemma second_switch_in_range:
  assumes "second_switch cfg y s c = Return s'" and "sel s < length (ents s)"
  shows "sel s' < length (ents s')"
proof -
  consider "c = 106" | "c = 107" | "c = 108" | "c = 103" | "c = 71" | "c = 101" | "c = 120"
    | "c \<noteq> 106" "c \<noteq> 107" "c \<noteq> 108" "c \<noteq> 103" "c \<noteq> 71" "c \<noteq> 101" "c \<noteq> 120"
    by blast
  then show ?thesis
  proof cases
    case 1
    then show ?thesis
      using assms
      by (auto simp: second_switch_j with_entry_Return with_names_Return split: if_splits)
  next
    case 2
    then show ?thesis
      using assms
      by (auto simp: second_switch_k with_entry_Return with_names_Return split: if_splits)
  next
    case 3
    then have "enter s (ents s ! sel s) = Return s'"
      using assms by (simp add: second_switch_l with_entry_Return)
    from enter_Return [OF this] show ?thesis
      using assms(2) by auto
  next
    case 4
    then show ?thesis
      using assms by (auto simp: second_switch_g with_entry_Return with_names_Return)
  next
    case 5
    then show ?thesis
      using assms by (auto simp: second_switch_G with_entry_Return with_names_Return)
  next
    case 6
    then show ?thesis
      using assms
      by (auto simp: second_switch_e with_entry_Return with_names_Return bind_Return_iff)
  next
    case 7
    then show ?thesis
      using assms by (auto simp: second_switch_x with_entry_Return with_names_Return)
  next
    case 8
    then show ?thesis
      using assms by (simp add: second_switch_unbound)
  qed
qed

lemma handle_key_Return:
  assumes "handle_key cfg y s c = Return s'"
  shows "ents s' = ents s \<and> ents_size s' = ents_size s \<and> last_dir s' = last_dir s \<and>
    g_row (terminal s') = g_row (terminal s) \<and> g_col (terminal s') = g_col (terminal s) \<and>
    (sel_in_range s \<longrightarrow> sel_in_range s')"
proof -
  from assms obtain s1 where 1: "first_switch cfg y s c = Return s1"
    and 2: "(if length (ents s1) = 0 then Return s1 else second_switch cfg y s1 c) = Return s'"
    by (auto simp: handle_key_def bind_Return_iff)
  note keep = first_switch_Return [OF 1]
  show ?thesis
  proof (cases "ents s1 = []")
    case True
    then show ?thesis
      using 2 keep by (simp add: sel_in_range_def)
  next
    case False
    then have 3: "second_switch cfg y s1 c = Return s'"
      using 2 by simp
    have "sel_in_range s'" if "sel_in_range s"
    proof -
      have "sel s1 < length (ents s1)"
        using that keep False by (simp add: sel_in_range_def)
      from second_switch_in_range [OF 3 this] show ?thesis
        by (auto simp: sel_in_range_def)
    qed
    then show ?thesis
      using second_switch_keeps [OF 3] keep by simp
  qed
qed

text \<open>A reading puts the selection on the first line, and leaves the geometry alone.\<close>

lemma refresh_stale:
  assumes "fetch_dir s"
  shows "refresh cfg e y s =
    (case read_dir e (path s) (ents_size s) (show_hidden s) of
       Inl err \<Rightarrow> exit_main EXIT_FAILURE y (perror ''realloc'' (terminal s))
     | Inr (es, sz, ld) \<Rightarrow>
         (case redraw cfg (path s) ld es 0 of
            None \<Rightarrow> Undefined
          | Some bytes \<Rightarrow>
              Return (s\<lparr>fetch_dir := False, sel := 0, ents := es, ents_size := sz,
                        last_dir := ld, terminal := printf bytes (terminal s)\<rparr>)))"
  using assms by (simp add: refresh_def)

lemma refresh_fresh: "\<not> fetch_dir s \<Longrightarrow> refresh cfg e y s = Return s"
  by (simp add: refresh_def)

lemma refresh_stale_Return:
  assumes "fetch_dir s" and "refresh cfg e y s = Return s'"
  shows "\<exists>es sz ld bytes.
    read_dir e (path s) (ents_size s) (show_hidden s) = Inr (es, sz, ld) \<and>
    s' = s\<lparr>fetch_dir := False, sel := 0, ents := es, ents_size := sz, last_dir := ld,
           terminal := printf bytes (terminal s)\<rparr>"
  using assms(2)
  by (auto simp: refresh_stale [OF assms(1)] exit_main_def split: sum.splits option.splits)

text \<open>The lines of a listing can be drawn whenever \<^verbatim>\<open>read_dir\<close> has returned it.\<close>

lemma redraw_Some:
  "es = [] \<or> ld \<noteq> None \<Longrightarrow> \<exists>bytes. redraw cfg p ld es sl = Some bytes"
  by (auto simp: redraw_def Let_def)

lemma read_dir_redraw:
  assumes "read_dir e dir sz h = Inr (es, sz', ld)"
  shows "\<exists>bytes. redraw cfg p ld es sl = Some bytes"
proof (rule redraw_Some)
  show "es = [] \<or> ld \<noteq> None"
    using read_dir_Inr [OF assms]
    by (cases "opendir e dir") (simp_all add: sorted_listing_def stream_buf_def)
qed

lemma refresh_Return:
  assumes "refresh cfg e y s = Return s'"
  shows "g_row (terminal s') = g_row (terminal s) \<and> g_col (terminal s') = g_col (terminal s) \<and>
    (sel_in_range s \<longrightarrow> sel_in_range s')"
proof (cases "fetch_dir s")
  case True
  from refresh_stale_Return [OF True assms] show ?thesis
    by (auto simp: sel_in_range_def printf_def)
next
  case False
  then show ?thesis
    using assms by (simp add: refresh_fresh)
qed

lemma loop_body_Return:
  assumes "loop_body cfg e y s c = Return s'"
  shows "g_row (terminal s') = g_row (terminal s) \<and> g_col (terminal s') = g_col (terminal s) \<and>
    (sel_in_range s \<longrightarrow> sel_in_range s')"
proof -
  from assms(1) obtain s1 where 1: "refresh cfg e y s = Return s1"
    and 2: "handle_key cfg y s1 c = Return s'"
    by (auto simp: loop_body_def bind_Return_iff)
  from refresh_Return [OF 1] handle_key_Return [OF 2] show ?thesis
    by simp
qed

lemma run_in_range:
  "run cfg s inputs = Return s' \<Longrightarrow> sel_in_range s \<Longrightarrow> sel_in_range s'"
proof (induction inputs arbitrary: s)
  case Nil
  then show ?case by simp
next
  case (Cons i inputs)
  obtain e y c where i: "i = (e, y, c)"
    by (cases i) auto
  from Cons.prems(1) obtain s1 where 1: "loop_body cfg e y s c = Return s1"
    and 2: "run cfg s1 inputs = Return s'"
    unfolding i by (auto simp: bind_Return_iff)
  have "sel_in_range s1"
    using loop_body_Return [OF 1] Cons.prems(2) by simp
  from Cons.IH [OF 2 this] show ?case .
qed

lemma handle_key_enter:
  assumes "sel s < length (ents s)"
  shows "handle_key cfg y s (key CHR ''l'') = enter s (ents s ! sel s)"
proof -
  have "first_switch cfg y s 108 = Return s"
    by (rule first_switch_other) simp_all
  moreover have "length (ents s) \<noteq> 0"
    using assms by auto
  ultimately show ?thesis
    using assms by (simp add: handle_key_def key_values second_switch_l with_entry_def)
qed

text \<open>The sample \<^verbatim>\<open>dirname\<close> on some paths.\<close>

lemma glibc_dirname_samples:
  "take (glibc_dirname ''/usr/lib'') ''/usr/lib'' = ''/usr''"
  "take (glibc_dirname ''/usr/'') ''/usr/'' = ''/''"
  "take (glibc_dirname ''/usr'') ''/usr'' = ''/''"
  "take (glibc_dirname ''/'') ''/'' = ''/''"
  "take (glibc_dirname ''//'') ''//'' = ''//''"
  "take (glibc_dirname ''a//b'') ''a//b'' = ''a''"
  "take (glibc_dirname ''src'') ''src'' = ''src''"
  by (simp_all add: glibc_dirname_def Let_def)

section \<open>The claims on the navigation\<close>

text \<open>
  Claim C2. Whatever the sequence of keys, and whatever the system answers at each
  iteration, the selection stays below the length of the listing when the listing is not
  empty, and is 0 when it is empty: at the end of every iteration of a session, and after
  the reading that opens the next one.
\<close>

theorem selection_in_range:
  assumes "run cfg (init_state p t) inputs = Return s"
  shows "(ents s \<noteq> [] \<longrightarrow> sel s < length (ents s)) \<and> (ents s = [] \<longrightarrow> sel s = 0) \<and>
    (\<forall>e y s'. refresh cfg e y s = Return s' \<longrightarrow>
       (ents s' \<noteq> [] \<longrightarrow> sel s' < length (ents s')) \<and> (ents s' = [] \<longrightarrow> sel s' = 0))"
proof -
  have "sel_in_range (init_state p t)"
    by (simp add: sel_in_range_def init_state_def)
  with assms have s: "sel_in_range s"
    by (rule run_in_range)
  have "sel_in_range s'" if "refresh cfg e y s = Return s'" for e y s'
    using refresh_Return [OF that] s by simp
  with s show ?thesis
    by (auto simp: sel_in_range_def split: if_splits)
qed

lemma five_files_listing:
  "read_dir five_files ''/data'' 64 False =
     Inr ([\<lparr>type = TYPE_NORM, d_name = 163\<rparr>, \<lparr>type = TYPE_NORM, d_name = 139\<rparr>,
           \<lparr>type = TYPE_NORM, d_name = 115\<rparr>, \<lparr>type = TYPE_NORM, d_name = 91\<rparr>,
           \<lparr>type = TYPE_NORM, d_name = 67\<rparr>],
          64, Some (buffer_of data_names))"
  "shown (Some (buffer_of data_names))
     [\<lparr>type = TYPE_NORM, d_name = 163\<rparr>, \<lparr>type = TYPE_NORM, d_name = 139\<rparr>,
      \<lparr>type = TYPE_NORM, d_name = 115\<rparr>, \<lparr>type = TYPE_NORM, d_name = 91\<rparr>,
      \<lparr>type = TYPE_NORM, d_name = 67\<rparr>] = [''a'', ''b'', ''c'', ''d'', ''e'']"
  by (simp_all add: five_files_def data_names_def shown_def read_dir_eval)

lemmas loop_eval = loop_body_def refresh_def redraw_def handle_key_def init_state_def
  key_values first_switch_other second_switch_unbound second_switch_j second_switch_G
  second_switch_g with_entry_def with_names_def ENT_ALLOC_NUM_def Let_def

text \<open>
  Scenario B of the specification: three times \<^verbatim>\<open>j\<close> lead to the fourth entry, \<^verbatim>\<open>G\<close> to the
  last one, where one more \<^verbatim>\<open>j\<close> changes nothing, and \<^verbatim>\<open>g\<close> back to the first.
\<close>

lemma scenario_B:
  "\<exists>s. run cfg0 (init_state ''/data'' tty0)
          [(five_files, sys0, key CHR ''j''), (five_files, sys0, key CHR ''j''),
           (five_files, sys0, key CHR ''j'')] = Return s \<and>
        length (ents s) = 5 \<and> sel s = 3"
  "\<exists>s. run cfg0 (init_state ''/data'' tty0)
          [(five_files, sys0, key CHR ''j''), (five_files, sys0, key CHR ''j''),
           (five_files, sys0, key CHR ''j''), (five_files, sys0, key CHR ''G''),
           (five_files, sys0, key CHR ''j'')] = Return s \<and>
        length (ents s) = 5 \<and> sel s = 4"
  "\<exists>s. run cfg0 (init_state ''/data'' tty0)
          [(five_files, sys0, key CHR ''j''), (five_files, sys0, key CHR ''j''),
           (five_files, sys0, key CHR ''j''), (five_files, sys0, key CHR ''G''),
           (five_files, sys0, key CHR ''g'')] = Return s \<and>
        length (ents s) = 5 \<and> sel s = 0"
  by (simp_all add: loop_eval five_files_listing(1))

theorem selection_in_range_witness:
  "\<exists>s. run cfg0 (init_state ''/data'' tty0)
          [(five_files, sys0, key CHR ''j''), (five_files, sys0, key CHR ''j''),
           (five_files, sys0, key CHR ''j''), (five_files, sys0, key CHR ''G''),
           (five_files, sys0, key CHR ''j'')] = Return s \<and>
        length (ents s) = 5 \<and> sel s = 4 \<and> sel s < length (ents s)"
proof -
  from scenario_B(2) obtain s where
    r: "run cfg0 (init_state ''/data'' tty0)
          [(five_files, sys0, key CHR ''j''), (five_files, sys0, key CHR ''j''),
           (five_files, sys0, key CHR ''j''), (five_files, sys0, key CHR ''G''),
           (five_files, sys0, key CHR ''j'')] = Return s"
    and n: "length (ents s) = 5" and i: "sel s = 4"
    by blast
  from n have "ents s \<noteq> []"
    by auto
  with selection_in_range [OF r] have "sel s < length (ents s)"
    by blast
  with r n i show ?thesis by blast
qed

text \<open>
  The states in which a key is read hold the listing of their file system: a reading
  that returns establishes this, and every key that leaves the listing fresh keeps it,
  wherever it moves the selection.
\<close>

lemma refresh_shows_listing:
  assumes "fetch_dir s0" and "refresh cfg e y s0 = Return s"
  shows "shows_listing_of e s"
proof -
  from refresh_stale_Return [OF assms] obtain es sz ld bytes where
    rd: "read_dir e (path s0) (ents_size s0) (show_hidden s0) = Inr (es, sz, ld)"
    and s: "s = s0\<lparr>fetch_dir := False, sel := 0, ents := es, ents_size := sz, last_dir := ld,
                   terminal := printf bytes (terminal s0)\<rparr>"
    by blast
  from read_dir_Inr [OF rd] read_dir_size [OF rd] show ?thesis
    by (simp add: shows_listing_of_def s)
qed

lemma first_switch_fresh:
  assumes "first_switch cfg y s c = Return s'" and "\<not> fetch_dir s'"
  shows "s' = s"
proof -
  consider "c = 104" | "c = 126" | "c = 47" | "c = 46" | "c = 114" | "c = 115" | "c = 113"
    | "c \<noteq> 104" "c \<noteq> 126" "c \<noteq> 47" "c \<noteq> 46" "c \<noteq> 114" "c \<noteq> 115" "c \<noteq> 113"
    by blast
  then show ?thesis
  proof cases
    case 2
    then show ?thesis
      using assms by (auto simp: first_switch_keys split: option.splits)
  next
    case 6
    then show ?thesis
      using assms by (auto simp: first_switch_keys bind_Return_iff)
  next
    case 7
    then show ?thesis
      using assms by (simp add: first_switch_keys exit_main_def)
  next
    case 8
    then show ?thesis
      using assms by (simp add: first_switch_other)
  qed (use assms in \<open>auto simp: first_switch_keys\<close>)
qed

lemma first_switch_stale:
  assumes "first_switch cfg y s c = Return s'" and "fetch_dir s"
  shows "fetch_dir s'"
proof (rule ccontr)
  assume "\<not> fetch_dir s'"
  with assms(1) have "s' = s"
    by (rule first_switch_fresh)
  with assms(2) \<open>\<not> fetch_dir s'\<close> show False
    by simp
qed

lemma second_switch_fresh:
  assumes "second_switch cfg y s c = Return s'" and "\<not> fetch_dir s'"
  shows "path s' = path s \<and> show_hidden s' = show_hidden s \<and> \<not> fetch_dir s"
proof -
  consider "c = 106" | "c = 107" | "c = 108" | "c = 103" | "c = 71" | "c = 101" | "c = 120"
    | "c \<noteq> 106" "c \<noteq> 107" "c \<noteq> 108" "c \<noteq> 103" "c \<noteq> 71" "c \<noteq> 101" "c \<noteq> 120"
    by blast
  then show ?thesis
  proof cases
    case 1
    then show ?thesis
      using assms
      by (auto simp: second_switch_j with_entry_Return with_names_Return split: if_splits)
  next
    case 2
    then show ?thesis
      using assms
      by (auto simp: second_switch_k with_entry_Return with_names_Return split: if_splits)
  next
    case 3
    then have "enter s (ents s ! sel s) = Return s'"
      using assms by (simp add: second_switch_l with_entry_Return)
    from enter_Return [OF this] show ?thesis
      using assms(2) by auto
  next
    case 4
    then show ?thesis
      using assms by (auto simp: second_switch_g with_entry_Return with_names_Return)
  next
    case 5
    then show ?thesis
      using assms by (auto simp: second_switch_G with_entry_Return with_names_Return)
  next
    case 6
    then show ?thesis
      using assms
      by (auto simp: second_switch_e with_entry_Return with_names_Return bind_Return_iff)
  next
    case 7
    then show ?thesis
      using assms by (auto simp: second_switch_x with_entry_Return with_names_Return)
  next
    case 8
    then show ?thesis
      using assms by (simp add: second_switch_unbound)
  qed
qed

lemma shows_listing_of_kept:
  assumes "shows_listing_of e s" and "handle_key cfg y s c = Return s'" and "\<not> fetch_dir s'"
  shows "shows_listing_of e s'"
proof -
  from assms(2) obtain s1 where 1: "first_switch cfg y s c = Return s1"
    and 2: "(if length (ents s1) = 0 then Return s1 else second_switch cfg y s1 c) = Return s'"
    by (auto simp: handle_key_def bind_Return_iff)
  have "\<not> fetch_dir s1 \<and> path s' = path s1 \<and> show_hidden s' = show_hidden s1"
  proof (cases "ents s1 = []")
    case True
    then show ?thesis
      using 2 assms(3) by simp
  next
    case False
    then have "second_switch cfg y s1 c = Return s'"
      using 2 by simp
    from second_switch_fresh [OF this assms(3)] show ?thesis
      by simp
  qed
  moreover from this 1 have "s1 = s"
    by (simp add: first_switch_fresh)
  moreover from assms(1) have "ents s = sorted_listing e (path s) (show_hidden s)"
    and "last_dir s = stream_buf e (path s)" and "length (ents s) \<le> ents_size s"
    unfolding shows_listing_of_def by blast+
  ultimately show ?thesis
    using assms(3) handle_key_Return [OF assms(2)] by (simp add: shows_listing_of_def)
qed

text \<open>
  Claim C7. Take any state in which a key is read and which shows the listing of its
  file system, with the selection anywhere, and press \<^verbatim>\<open>.\<close> twice while the file system
  stays the same: if the process survives the reading after the first key, then the
  reading after the second key returns, and its listing is the one before the first key,
  element for element and name for name, with the path and the visibility of hidden
  files as they were.
\<close>

theorem toggle_hidden_twice:
  assumes "shows_listing_of e s"
    and "run cfg s [(e, y1, key CHR ''.''), (e, y2, key CHR ''.'')] = Return s2"
  shows "\<exists>s3. refresh cfg e y3 s2 = Return s3 \<and> ents s3 = ents s \<and>
    last_dir s3 = last_dir s \<and> shown (last_dir s3) (ents s3) = shown (last_dir s) (ents s) \<and>
    path s3 = path s \<and> show_hidden s3 = show_hidden s"
proof -
  from assms(1) have fresh: "\<not> fetch_dir s"
    and es: "ents s = sorted_listing e (path s) (show_hidden s)"
    and ld: "last_dir s = stream_buf e (path s)"
    and fits: "length (ents s) \<le> ents_size s"
    unfolding shows_listing_of_def by blast+
  define s1 where "s1 = s\<lparr>show_hidden := \<not> show_hidden s, fetch_dir := True\<rparr>"
  have "loop_body cfg e y1 s (key CHR ''.'') = Return s1"
    using fresh by (simp add: loop_body_def refresh_fresh handle_key_toggle s1_def)
  then have "loop_body cfg e y2 s1 (key CHR ''.'') = Return s2"
    using assms(2) by (simp add: bind_Return_right)
  then obtain s1' where r1: "refresh cfg e y2 s1 = Return s1'"
    and s2: "s2 = s1'\<lparr>show_hidden := \<not> show_hidden s1', fetch_dir := True\<rparr>"
    by (auto simp: loop_body_def bind_Return_iff handle_key_toggle)
  have stale1: "fetch_dir s1"
    by (simp add: s1_def)
  from refresh_stale_Return [OF stale1 r1] obtain es' sz2 ld' bytes where
    rd1: "read_dir e (path s1) (ents_size s1) (show_hidden s1) = Inr (es', sz2, ld')"
    and s1': "s1' = s1\<lparr>fetch_dir := False, sel := 0, ents := es', ents_size := sz2,
                      last_dir := ld', terminal := printf bytes (terminal s1)\<rparr>"
    by blast
  have "ents_size s \<le> sz2"
    using read_dir_size [OF rd1] by (simp add: s1_def)
  with fits have "length (unsorted_listing e (path s) (show_hidden s)) \<le> sz2"
    by (simp add: es length_sorted_listing)
  then have rd2: "read_dir e (path s) sz2 (show_hidden s) = Inr (ents s, sz2, last_dir s)"
    unfolding es ld by (rule read_dir_fits)
  from read_dir_redraw [OF rd2] obtain bytes2 where
    dr: "redraw cfg (path s) (last_dir s) (ents s) 0 = Some bytes2"
    by blast
  have "fetch_dir s2" "path s2 = path s" "show_hidden s2 = show_hidden s" "ents_size s2 = sz2"
    by (simp_all add: s2 s1' s1_def)
  then have "refresh cfg e y3 s2 =
      Return (s2\<lparr>fetch_dir := False, sel := 0, ents := ents s, ents_size := sz2,
                 last_dir := last_dir s, terminal := printf bytes2 (terminal s2)\<rparr>)"
    using rd2 dr by (simp add: refresh_stale)
  then show ?thesis
    using \<open>path s2 = path s\<close> \<open>show_hidden s2 = show_hidden s\<close> by simp
qed

theorem toggle_hidden_twice_witness:
  "\<exists>s s2 s3.
      run cfg0 (init_state ''/tmp/proj'' tty0) [(scenario_A, sys0, key CHR ''j'')] = Return s \<and>
      sel s = 1 \<and> shows_listing_of scenario_A s \<and>
      shown (last_dir s) (ents s) = [''banana'', ''Apple'', ''cherry.sh''] \<and>
      run cfg0 s [(scenario_A, sys0, key CHR ''.''), (scenario_A, sys0, key CHR ''.'')] =
        Return s2 \<and>
      shown (last_dir s2) (ents s2) = [''banana'', ''.hidden'', ''Apple'', ''cherry.sh''] \<and>
      refresh cfg0 scenario_A sys0 s2 = Return s3 \<and>
      shown (last_dir s3) (ents s3) = [''banana'', ''Apple'', ''cherry.sh''] \<and>
      ents s3 = ents s"
proof -
  obtain s0 where r0: "refresh cfg0 scenario_A sys0 (init_state ''/tmp/proj'' tty0) = Return s0"
    and e0: "ents s0 = [\<lparr>type = TYPE_DIR, d_name = 131\<rparr>, \<lparr>type = TYPE_NORM, d_name = 163\<rparr>,
                        \<lparr>type = TYPE_EXEC, d_name = 67\<rparr>]"
    and l0: "last_dir s0 = Some (buffer_of proj_names)" and i0: "sel s0 = 0"
    and p0: "path s0 = ''/tmp/proj''" "\<not> show_hidden s0" "ents_size s0 = 64" "\<not> fetch_dir s0"
    by (simp add: refresh_def redraw_def init_state_def ENT_ALLOC_NUM_def scenario_A_plain(1))
  have "fetch_dir (init_state ''/tmp/proj'' tty0)"
    by (simp add: init_state_def)
  from this r0 have sh0: "shows_listing_of scenario_A s0"
    by (rule refresh_shows_listing)
  obtain s where k: "handle_key cfg0 sys0 s0 (key CHR ''j'') = Return s"
    and i: "sel s = 1" and f: "\<not> fetch_dir s"
    and p: "path s = ''/tmp/proj''" "\<not> show_hidden s" "ents_size s = 64"
    using e0 l0 i0 p0
    by (simp add: handle_key_def key_values first_switch_other second_switch_j with_entry_def
        with_names_def)
  from sh0 k f have sh: "shows_listing_of scenario_A s"
    by (rule shows_listing_of_kept)
  have r: "run cfg0 (init_state ''/tmp/proj'' tty0) [(scenario_A, sys0, key CHR ''j'')] = Return s"
    using r0 k by (simp add: loop_body_def)
  have e: "ents s = ents s0" and l: "last_dir s = last_dir s0"
    using handle_key_Return [OF k] by simp_all
  have n: "shown (last_dir s) (ents s) = [''banana'', ''Apple'', ''cherry.sh'']"
    by (simp add: e l e0 l0 scenario_A_plain(2))
  obtain s2 where
    run: "run cfg0 s [(scenario_A, sys0, key CHR ''.''), (scenario_A, sys0, key CHR ''.'')] =
      Return s2"
    and n2: "shown (last_dir s2) (ents s2) = [''banana'', ''.hidden'', ''Apple'', ''cherry.sh'']"
    using p f
    by (simp add: loop_body_def refresh_def redraw_def handle_key_toggle scenario_A_all)
  from toggle_hidden_twice [OF sh run, of sys0] obtain s3
    where "refresh cfg0 scenario_A sys0 s2 = Return s3" and "ents s3 = ents s"
      and "shown (last_dir s3) (ents s3) = shown (last_dir s) (ents s)"
    by blast
  with r i sh n run n2 show ?thesis
    by (intro exI [of _ s] exI [of _ s2] exI [of _ s3]) simp
qed

text \<open>
  Claim C8 holds in its first half only: \<^verbatim>\<open>l\<close> changes nothing unless the selected entry
  is a directory or a symlink to one. In a session started as \<^verbatim>\<open>filet .\<close> the second half
  fails: on the directory \<^verbatim>\<open>src\<close> the path becomes \<^verbatim>\<open>.src\<close>, where a new segment would
  give \<^verbatim>\<open>./src\<close>. The test \<^verbatim>\<open>path[1] != '\0'\<close>, meant for the path \<^verbatim>\<open>/\<close> alone, holds of every
  path of one byte.
\<close>

lemma enter_not_directory:
  assumes "sel s < length (ents s)" and "\<not> is_dir_type (type (ents s ! sel s))"
  shows "handle_key cfg y s (key CHR ''l'') = Return s"
  using assms by (simp add: handle_key_enter enter_def is_dir_type_def)

theorem enter_from_dot:
  "handle_key cfg0 sys0 started_in_dot (key CHR ''l'') =
     Return (started_in_dot\<lparr>path := ''.src'', fetch_dir := True\<rparr>)"
proof -
  have "sel started_in_dot < length (ents started_in_dot)"
    by (simp add: started_in_dot_def)
  then show ?thesis
    by (simp add: handle_key_enter)
      (simp add: started_in_dot_def enter_def byte_at_def with_names_def strcat_def
        PATH_MAX_def buffer_of_def)
qed

text \<open>
  The key \<^verbatim>\<open>l\<close> on a directory, by the path and by the room left in its buffer of
  \<^verbatim>\<open>PATH_MAX\<close> bytes.
\<close>

lemma byte_at_1_cstring:
  assumes "cstring p" and "2 \<le> length p"
  shows "\<exists>b. byte_at p 1 = Some b \<and> b \<noteq> NUL"
proof -
  have "p ! 1 \<in> set p"
    using assms(2) by simp
  then have "p ! 1 \<noteq> NUL"
    using assms(1) by (auto simp: cstring_def)
  then show ?thesis
    using assms(2) by (simp add: byte_at_def)
qed

lemma enter_root:
  assumes "is_dir_type (type ent)" and "path s = ''/''" and "last_dir s = Some mem"
  shows "enter s ent =
    (if 1 + length (mem (d_name ent)) < PATH_MAX
     then Return (s\<lparr>path := ''/'' @ mem (d_name ent), fetch_dir := True\<rparr>)
     else Undefined)"
  using assms
  by (simp add: enter_def is_dir_type_def byte_at_def with_names_def strcat_def)

lemma enter_deeper:
  assumes "is_dir_type (type ent)" and "cstring (path s)" and "2 \<le> length (path s)"
    and "last_dir s = Some mem"
  shows "enter s ent =
    (if length (path s) + 1 + length (mem (d_name ent)) < PATH_MAX
     then Return (s\<lparr>path := path s @ ''/'' @ mem (d_name ent), fetch_dir := True\<rparr>)
     else Undefined)"
proof -
  from byte_at_1_cstring [OF assms(2,3)] obtain b where
    "byte_at (path s) 1 = Some b" and "b \<noteq> NUL"
    by blast
  then show ?thesis
    using assms(1,4)
    by (simp add: enter_def is_dir_type_def with_names_def strcat_def)
qed

text \<open>
  Claim C10, as stated, fails for the paths that leave no room in the buffer: \<^verbatim>\<open>path\<close> is
  allocated with \<^verbatim>\<open>PATH_MAX\<close> bytes and \<^verbatim>\<open>strcat\<close> is called without a test. Sixteen
  directories deep, on a path of 4080 bytes, entering \<^verbatim>\<open>node_modules.old\<close> would write
  4098 bytes: the behaviour is undefined, and no path with the separator and the name is
  promised.
\<close>

theorem enter_overflow_counterexample:
  "path at_depth \<noteq> ''/'' \<and> length (path at_depth) = 4080 \<and>
   sel at_depth = 0 \<and> type (ents at_depth ! 0) = TYPE_DIR \<and>
   shown (last_dir at_depth) (ents at_depth) = [''node_modules.old''] \<and>
   handle_key cfg0 sys0 at_depth (key CHR ''l'') = Undefined"
proof -
  have len: "length (path at_depth) = 4080"
    by (simp add: at_depth_def length_concat sum_list_replicate)
  then have ne: "path at_depth \<noteq> ''/''"
    by auto
  have c: "cstring (path at_depth)"
    by (simp add: at_depth_def cstring_def NUL_def)
  have i: "sel at_depth < length (ents at_depth)" "sel at_depth = 0"
    and t: "type (ents at_depth ! 0) = TYPE_DIR"
    and l: "last_dir at_depth = Some (buffer_of [(19, ''.''), (43, ''..''),
              (67, ''node_modules.old'')])"
    and d: "d_name (ents at_depth ! sel at_depth) = 67"
    by (simp_all add: at_depth_def)
  have n: "shown (last_dir at_depth) (ents at_depth) = [''node_modules.old'']"
    by (simp add: at_depth_def shown_def buffer_of_def)
  have "is_dir_type (type (ents at_depth ! sel at_depth))"
    using t i(2) by (simp add: is_dir_type_def)
  from enter_deeper [OF this c _ l] len
  have "enter at_depth (ents at_depth ! sel at_depth) = Undefined"
    by (simp add: d buffer_of_def PATH_MAX_def)
  then have "handle_key cfg0 sys0 at_depth (key CHR ''l'') = Undefined"
    using i(1) by (simp add: handle_key_enter)
  with ne len i(2) t n show ?thesis
    by simp
qed

text \<open>
  Claim C10, amended. When the selected entry is a directory or a symlink to one, named
  \<open>N\<close>, and the path is a C string: if the path is \<^verbatim>\<open>/\<close> and \<^verbatim>\<open>/N\<close> with its terminator fits
  in \<^verbatim>\<open>PATH_MAX\<close> bytes, the key \<^verbatim>\<open>l\<close> makes the path \<^verbatim>\<open>/N\<close>; if it is any other path of
  two bytes or more and the path, a \<^verbatim>\<open>/\<close>, \<open>N\<close> and the terminator fit in \<^verbatim>\<open>PATH_MAX\<close>
  bytes, the key makes it the path, a \<^verbatim>\<open>/\<close>, and \<open>N\<close>. In both cases the listing is marked
  stale and nothing else changes. When the bytes do not fit, the behaviour is undefined.
\<close>

theorem enter_appends:
  assumes "sel s < length (ents s)" and "is_dir_type (type (ents s ! sel s))"
    and "cstring (path s)" and "last_dir s = Some mem"
  shows "(path s = ''/'' \<and> 1 + length (mem (d_name (ents s ! sel s))) < PATH_MAX \<longrightarrow>
            handle_key cfg y s (key CHR ''l'') =
              Return (s\<lparr>path := ''/'' @ mem (d_name (ents s ! sel s)), fetch_dir := True\<rparr>)) \<and>
         (path s \<noteq> ''/'' \<and> 2 \<le> length (path s) \<and>
          length (path s) + 1 + length (mem (d_name (ents s ! sel s))) < PATH_MAX \<longrightarrow>
            handle_key cfg y s (key CHR ''l'') =
              Return (s\<lparr>path := path s @ ''/'' @ mem (d_name (ents s ! sel s)),
                        fetch_dir := True\<rparr>)) \<and>
         (path s = ''/'' \<and> PATH_MAX \<le> 1 + length (mem (d_name (ents s ! sel s))) \<longrightarrow>
            handle_key cfg y s (key CHR ''l'') = Undefined) \<and>
         (path s \<noteq> ''/'' \<and> 2 \<le> length (path s) \<and>
          PATH_MAX \<le> length (path s) + 1 + length (mem (d_name (ents s ! sel s))) \<longrightarrow>
            handle_key cfg y s (key CHR ''l'') = Undefined)"
proof -
  have k: "handle_key cfg y s (key CHR ''l'') = enter s (ents s ! sel s)"
    using assms(1) by (rule handle_key_enter)
  have 1: "handle_key cfg y s (key CHR ''l'') =
      Return (s\<lparr>path := ''/'' @ mem (d_name (ents s ! sel s)), fetch_dir := True\<rparr>)"
    if "path s = ''/''" "1 + length (mem (d_name (ents s ! sel s))) < PATH_MAX"
    using enter_root [OF assms(2) that(1) assms(4)] that(2) by (simp add: k)
  have 2: "handle_key cfg y s (key CHR ''l'') =
      Return (s\<lparr>path := path s @ ''/'' @ mem (d_name (ents s ! sel s)), fetch_dir := True\<rparr>)"
    if "2 \<le> length (path s)"
      "length (path s) + 1 + length (mem (d_name (ents s ! sel s))) < PATH_MAX"
    using enter_deeper [OF assms(2,3) that(1) assms(4)] that(2) by (simp add: k)
  have 3: "handle_key cfg y s (key CHR ''l'') = Undefined"
    if "path s = ''/''" "PATH_MAX \<le> 1 + length (mem (d_name (ents s ! sel s)))"
    using enter_root [OF assms(2) that(1) assms(4)] that(2) by (simp add: k)
  have 4: "handle_key cfg y s (key CHR ''l'') = Undefined"
    if "2 \<le> length (path s)"
      "PATH_MAX \<le> length (path s) + 1 + length (mem (d_name (ents s ! sel s)))"
    using enter_deeper [OF assms(2,3) that(1) assms(4)] that(2) by (simp add: k)
  from 1 2 3 4 show ?thesis
    by blast
qed

theorem enter_appends_witness:
  "sel at_root < length (ents at_root) \<and> is_dir_type (type (ents at_root ! sel at_root)) \<and>
   cstring (path at_root) \<and> path at_root = ''/'' \<and>
   shown (last_dir at_root) (ents at_root) = [''usr''] \<and>
   handle_key cfg0 sys0 at_root (key CHR ''l'') =
     Return (at_root\<lparr>path := ''/usr'', fetch_dir := True\<rparr>) \<and>
   sel at_usr < length (ents at_usr) \<and> is_dir_type (type (ents at_usr ! sel at_usr)) \<and>
   cstring (path at_usr) \<and> path at_usr \<noteq> ''/'' \<and> 2 \<le> length (path at_usr) \<and>
   shown (last_dir at_usr) (ents at_usr) = [''lib''] \<and>
   handle_key cfg0 sys0 at_usr (key CHR ''l'') =
     Return (at_usr\<lparr>path := ''/usr/lib'', fetch_dir := True\<rparr>)"
proof -
  have r: "sel at_root < length (ents at_root)" "is_dir_type (type (ents at_root ! sel at_root))"
    "cstring (path at_root)"
    "last_dir at_root = Some (buffer_of [(19, ''.''), (43, ''..''), (67, ''usr'')])"
    "path at_root = ''/''"
    by (simp_all add: at_root_def is_dir_type_def cstring_def NUL_def)
  have u: "sel at_usr < length (ents at_usr)" "is_dir_type (type (ents at_usr ! sel at_usr))"
    "cstring (path at_usr)"
    "last_dir at_usr = Some (buffer_of [(19, ''.''), (43, ''..''), (67, ''lib'')])"
    "path at_usr \<noteq> ''/''" "2 \<le> length (path at_usr)"
    by (simp_all add: at_usr_def is_dir_type_def cstring_def NUL_def)
  have dr: "buffer_of [(19, ''.''), (43, ''..''), (67, ''usr'')]
              (d_name (ents at_root ! sel at_root)) = ''usr''"
    and du: "buffer_of [(19, ''.''), (43, ''..''), (67, ''lib'')]
              (d_name (ents at_usr ! sel at_usr)) = ''lib''"
    and pu: "path at_usr = ''/usr''"
    and nr: "shown (last_dir at_root) (ents at_root) = [''usr'']"
    and nu: "shown (last_dir at_usr) (ents at_usr) = [''lib'']"
    by (simp_all add: at_root_def at_usr_def buffer_of_def shown_def)
  from enter_appends [OF r(1,2,3,4), of cfg0 sys0] r(5) dr
  have 1: "handle_key cfg0 sys0 at_root (key CHR ''l'') =
     Return (at_root\<lparr>path := ''/usr'', fetch_dir := True\<rparr>)"
    by (simp add: PATH_MAX_def)
  from enter_appends [OF u(1,2,3,4), of cfg0 sys0] u(5,6) du pu
  have 2: "handle_key cfg0 sys0 at_usr (key CHR ''l'') =
     Return (at_usr\<lparr>path := ''/usr/lib'', fetch_dir := True\<rparr>)"
    by (simp add: PATH_MAX_def)
  from r u nr nu 1 2 show ?thesis
    by simp
qed

section \<open>The claim on the resize handler\<close>

text \<open>
  Claim C6, as stated, fails: the handler does not put the query off. On a terminal of
  24 rows, a notification that finds 50 rows and 132 columns leaves \<^verbatim>\<open>g_row\<close> at 50 when
  the handler returns.
\<close>

theorem handle_winch_counterexample:
  "g_row tty0 = 24 \<and> g_row (handle_winch (Some \<lparr>ws_row = 50, ws_col = 132\<rparr>) tty0) = 50"
  by (simp add: handle_winch_def get_term_size_def tty0_def Let_def)

text \<open>
  Claim C6, amended. The handler makes the query itself, inside the notification: when
  the query succeeds it stores the rows and columns in the globals at once, and when it
  fails it hands a message to \<^verbatim>\<open>perror\<close> and leaves the geometry as it was; it writes
  nothing to \<^verbatim>\<open>stdout\<close>, keeps no pending flag, and leaves itself installed. An iteration
  of the main loop never changes the geometry: it only reads it.
\<close>

theorem handle_winch_requeries:
  "handle_winch wsize t =
     (case wsize of
        Some w \<Rightarrow> t\<lparr>g_row := uint (ws_row w), g_col := uint (ws_col w), sigwinch := HANDLE_WINCH\<rparr>
      | None \<Rightarrow> t\<lparr>stderr := stderr t @ [''ioctl''], sigwinch := HANDLE_WINCH\<rparr>) \<and>
   stdout (handle_winch wsize t) = stdout t \<and>
   (\<forall>s'. loop_body cfg e y s c = Return s' \<longrightarrow>
      g_row (terminal s') = g_row (terminal s) \<and> g_col (terminal s') = g_col (terminal s))"
proof -
  have "handle_winch wsize t =
     (case wsize of
        Some w \<Rightarrow> t\<lparr>g_row := uint (ws_row w), g_col := uint (ws_col w), sigwinch := HANDLE_WINCH\<rparr>
      | None \<Rightarrow> t\<lparr>stderr := stderr t @ [''ioctl''], sigwinch := HANDLE_WINCH\<rparr>)"
    by (simp add: handle_winch_def get_term_size_def perror_def Let_def split: option.splits)
  moreover from this have "stdout (handle_winch wsize t) = stdout t"
    by (simp split: option.splits)
  moreover have "g_row (terminal s') = g_row (terminal s) \<and> g_col (terminal s') = g_col (terminal s)"
    if "loop_body cfg e y s c = Return s'" for s'
    using loop_body_Return [OF that] by simp
  ultimately show ?thesis by blast
qed

theorem handle_winch_requeries_witness:
  "handle_winch None tty0 = tty0\<lparr>stderr := [''ioctl'']\<rparr> \<and>
   g_col (handle_winch (Some \<lparr>ws_row = 50, ws_col = 132\<rparr>) tty0) = 132 \<and>
   (\<exists>s'. loop_body cfg0 five_files sys0 (init_state ''/data'' tty0) (key CHR ''G'') =
            Return s' \<and> sel s' = 4 \<and> g_row (terminal s') = 24)"
proof -
  obtain s' where
    r: "loop_body cfg0 five_files sys0 (init_state ''/data'' tty0) (key CHR ''G'') = Return s'"
    and i: "sel s' = 4"
    by (simp add: loop_eval five_files_listing(1))
  have t: "g_row (terminal (init_state ''/data'' tty0)) = 24"
    by (simp add: init_state_def tty0_def)
  from handle_winch_requeries [of None tty0 cfg0 five_files sys0 "init_state ''/data'' tty0"
      "key CHR ''G''"] r t
  have "handle_winch None tty0 = tty0\<lparr>stderr := [''ioctl'']\<rparr>" and "g_row (terminal s') = 24"
    by (simp_all add: tty0_def)
  moreover from handle_winch_requeries [of "Some \<lparr>ws_row = 50, ws_col = 132\<rparr>" tty0 cfg0
      five_files sys0 "init_state ''/data'' tty0" "key CHR ''G''"]
  have "g_col (handle_winch (Some \<lparr>ws_row = 50, ws_col = 132\<rparr>) tty0) = 132"
    by simp
  ultimately show ?thesis
    using r i by blast
qed

end
